theory Spec2Isabelle
  imports Main "HOL-Library.Monad_Syntax"
begin

section \<open>Text as the script sees it\<close>

text \<open>
  The script \<^verbatim>\<open>dev/prep_restore.py\<close> opens both files in text mode, so a line is a Python
  \<^verbatim>\<open>str\<close>: a sequence of Unicode code points. A code point is a natural number here, a
  string is a list of them, and \<open>str\<close> turns a literal of the theory into such a list.
\<close>

type_synonym codepoint = nat
type_synonym pystr = "codepoint list"

definition str :: "string \<Rightarrow> pystr" where
  "str s = map of_char s"

text \<open>
  \<^verbatim>\<open>str.strip()\<close> without an argument and the class \<^verbatim>\<open>\s\<close> of a \<^verbatim>\<open>str\<close> pattern use the same
  test, the whitespace property of a code point: the ASCII controls 9 to 13 and 28 to 31,
  the space, and the Unicode separators listed below.
\<close>

definition isspace :: "codepoint \<Rightarrow> bool" where
  "isspace c \<longleftrightarrow>
     (9 \<le> c \<and> c \<le> 13) \<or> (28 \<le> c \<and> c \<le> 32) \<or> c = 133 \<or> c = 160 \<or> c = 5760 \<or>
     (8192 \<le> c \<and> c \<le> 8202) \<or> c = 8232 \<or> c = 8233 \<or> c = 8239 \<or> c = 8287 \<or> c = 12288"

definition lstrip :: "pystr \<Rightarrow> pystr" where
  "lstrip s = dropWhile isspace s"

definition rstrip :: "pystr \<Rightarrow> pystr" where
  "rstrip s = rev (dropWhile isspace (rev s))"

definition strip :: "pystr \<Rightarrow> pystr" where
  "strip s = rstrip (lstrip s)"

text \<open>\<^verbatim>\<open>line.rstrip("\n")\<close> removes every trailing line feed (code point 10).\<close>

definition rstrip_nl :: "pystr \<Rightarrow> pystr" where
  "rstrip_nl s = rev (dropWhile (\<lambda>c. c = 10) (rev s))"

text \<open>
  \<^verbatim>\<open>s.split(sep)\<close> with a one-character separator: the result is never empty, and the empty
  string gives one empty field.
\<close>

fun split :: "codepoint \<Rightarrow> pystr \<Rightarrow> pystr list" where
  "split sep [] = [[]]"
| "split sep (c # cs) =
     (if c = sep then [] # split sep cs
      else (c # hd (split sep cs)) # tl (split sep cs))"

text \<open>\<^verbatim>\<open>sep.join(fields)\<close>.\<close>

fun join :: "pystr \<Rightarrow> pystr list \<Rightarrow> pystr" where
  "join sep [] = []"
| "join sep [f] = f"
| "join sep (f # g # fs) = f @ sep @ join sep (g # fs)"

section \<open>The COPY header pattern\<close>

text \<open>
  A literal character of a pattern compiled with \<^verbatim>\<open>re.IGNORECASE\<close> matches a cased letter
  in either case. For a \<^verbatim>\<open>str\<close> pattern the comparison is on the lower-case mapping of the
  text's code point, with the equivalents the \<^verbatim>\<open>re\<close> module adds: the dotted capital and
  the dotless small i (304, 305) for \<open>i\<close>, the long s (383) for \<open>s\<close>, the Kelvin sign
  (8490) for \<open>k\<close>. A character without case matches itself only.
\<close>

definition ci_eq :: "codepoint \<Rightarrow> codepoint \<Rightarrow> bool" where
  "ci_eq p c \<longleftrightarrow>
     (let lo = (if 65 \<le> p \<and> p \<le> 90 then p + 32 else p)
      in if 97 \<le> lo \<and> lo \<le> 122
         then c = lo \<or> c + 32 = lo \<or> (lo = 105 \<and> (c = 304 \<or> c = 305)) \<or>
              (lo = 115 \<and> c = 383) \<or> (lo = 107 \<and> c = 8490)
         else c = p)"

text \<open>
  The pieces of the pattern. Each returns the text it matched and the rest of the line, or
  \<open>None\<close>. \<open>lit_ci\<close> is a literal word, \<open>many1 P\<close> is a greedy \<^verbatim>\<open>+\<close> over a character class,
  \<open>many0 P\<close> a greedy \<^verbatim>\<open>*\<close>.
\<close>

definition lit_ci :: "pystr \<Rightarrow> pystr \<Rightarrow> (pystr \<times> pystr) option" where
  "lit_ci pat s =
     (if length pat \<le> length s \<and> list_all2 ci_eq pat (take (length pat) s)
      then Some (take (length pat) s, drop (length pat) s) else None)"

definition many0 :: "(codepoint \<Rightarrow> bool) \<Rightarrow> pystr \<Rightarrow> (pystr \<times> pystr) option" where
  "many0 P s = Some (takeWhile P s, dropWhile P s)"

definition many1 :: "(codepoint \<Rightarrow> bool) \<Rightarrow> pystr \<Rightarrow> (pystr \<times> pystr) option" where
  "many1 P s = (if takeWhile P s = [] then None else Some (takeWhile P s, dropWhile P s))"

text \<open>
  \<^verbatim>\<open>copy_header_pattern.match(line)\<close> for the pattern
  \<^verbatim>\<open>^(COPY\s+)(\S+)(\s+)\(([^)]*)\)(\s+FROM\s+stdin;)\<close>, compiled with \<^verbatim>\<open>re.IGNORECASE\<close>.
  The result is the five groups. In this pattern every repetition is followed by something
  its own class excludes (\<^verbatim>\<open>\s+\<close> by a non-space, \<^verbatim>\<open>\S+\<close> by a space, \<^verbatim>\<open>[^)]*\<close> by the closing
  parenthesis), so a repetition that stops before the end of its run cannot be continued:
  the backtracking matcher succeeds exactly when the greedy reading below does, with the
  same groups. \<^verbatim>\<open>match\<close> anchors at the start of the line only; what follows \<^verbatim>\<open>stdin;\<close> is
  not looked at.
\<close>

definition copy_header_pattern ::
  "pystr \<Rightarrow> (pystr \<times> pystr \<times> pystr \<times> pystr \<times> pystr) option" where
  "copy_header_pattern line = do {
     (kw1, r1) \<leftarrow> lit_ci (str ''COPY'') line;
     (ws1, r2) \<leftarrow> many1 isspace r1;
     (full_table, r3) \<leftarrow> many1 (\<lambda>c. \<not> isspace c) r2;
     (spacer, r4) \<leftarrow> many1 isspace r3;
     (lp, r5) \<leftarrow> lit_ci (str ''('') r4;
     (orig_cols, r6) \<leftarrow> many0 (\<lambda>c. c \<noteq> 41) r5;
     (rp, r7) \<leftarrow> lit_ci (str '')'') r6;
     (ws2, r8) \<leftarrow> many1 isspace r7;
     (kw2, r9) \<leftarrow> lit_ci (str ''FROM'') r8;
     (ws3, r10) \<leftarrow> many1 isspace r9;
     (kw3, r11) \<leftarrow> lit_ci (str ''stdin;'') r10;
     Some (kw1 @ ws1, full_table, spacer, orig_cols, ws2 @ kw2 @ ws3 @ kw3)
   }"

section \<open>The rewriting loop of main\<close>

text \<open>
  The three variables the loop of \<^verbatim>\<open>main\<close> carries from one line to the next.
  \<open>expected_col_count\<close> is an integer or Python's \<^verbatim>\<open>None\<close> (the count is unknown);
  \<open>current_table\<close> is a table name or \<^verbatim>\<open>None\<close>.
\<close>

record state =
  in_copy_block :: bool
  expected_col_count :: "nat option"
  current_table :: "pystr option"

definition initial_state :: state where
  "initial_state = \<lparr>in_copy_block = False, expected_col_count = Some 0, current_table = None\<rparr>"

text \<open>
  \<^verbatim>\<open>get_target_columns\<close> asks the target database through an external process. The loop
  uses nothing of it but the list it returns for a table name, so it enters the model as a
  function from table names to column lists; the empty list is what the script gets when
  the table is unknown or the query failed.
\<close>

type_synonym resolver = "pystr \<Rightarrow> pystr list"

text \<open>
  The treatment of a data row when the count is known (lines 157 to 166): the line without
  its trailing line feeds is split on the tab (code point 9); one extra field that is empty
  is dropped; what still exceeds the count is cut off; the fields are joined and a line
  feed is appended.
\<close>

definition fix_row :: "nat \<Rightarrow> pystr \<Rightarrow> pystr" where
  "fix_row expected line =
     (let row = rstrip_nl line;
          fields = split 9 row;
          fields = (if length fields = expected + 1 \<and> last fields = []
                    then butlast fields else fields);
          fields = (if length fields > expected then take expected fields else fields)
      in join [9] fields @ [10])"

text \<open>
  One round of the loop (lines 121 to 172): the text given to \<^verbatim>\<open>fout.write\<close> and the
  variables afterwards. The terminator the source compares with is the two code points
  backslash (92) and dot (46). Every branch writes exactly once. The header test comes first, for
  every line, whatever the state; then the block rules when a block is open; then the
  pass-through. The messages printed to the standard output do not reach the output file
  or the variables and are left out.
\<close>

definition main_step :: "resolver \<Rightarrow> state \<Rightarrow> pystr \<Rightarrow> pystr \<times> state" where
  "main_step get_target_columns st line =
     (case copy_header_pattern line of
        Some (prefix, full_table, spacer, orig_cols, suffix) \<Rightarrow>
          (let target_cols_list = get_target_columns full_table
           in if target_cols_list \<noteq> []
              then (prefix @ full_table @ spacer @ str ''('' @
                      join (str '', '') target_cols_list @ str '')'' @ suffix @ [10],
                    \<lparr>in_copy_block = True,
                     expected_col_count = Some (length target_cols_list),
                     current_table = Some full_table\<rparr>)
              else (line,
                    \<lparr>in_copy_block = True,
                     expected_col_count = None,
                     current_table = Some full_table\<rparr>))
      | None \<Rightarrow>
          if in_copy_block st
          then if strip line = [92, 46]
               then (line,
                     \<lparr>in_copy_block = False,
                      expected_col_count = Some 0,
                      current_table = None\<rparr>)
               else (case expected_col_count st of
                       Some n \<Rightarrow> (fix_row n line, st)
                     | None \<Rightarrow> (line, st))
          else (line, st))"

text \<open>The loop over the lines: what is written, in order, and the variables at the end.\<close>

fun main_loop :: "resolver \<Rightarrow> state \<Rightarrow> pystr list \<Rightarrow> pystr list \<times> state" where
  "main_loop r st [] = ([], st)"
| "main_loop r st (line # rest) =
     (let (out, st') = main_step r st line;
          (outs, st'') = main_loop r st' rest
      in (out # outs, st''))"


section \<open>From the input file to the output file\<close>

text \<open>
  Both files are opened in text mode with the default \<^verbatim>\<open>newline\<close> argument. On reading,
  \<^verbatim>\<open>\r\n\<close> and a lone \<^verbatim>\<open>\r\<close> (code point 13) become \<^verbatim>\<open>\n\<close>; the iteration
  \<^verbatim>\<open>for line in fin\<close> then yields the pieces that end after each line feed, the line feed
  included, and a last piece without one when the text does not end in a line feed.
\<close>

fun universal_newlines :: "pystr \<Rightarrow> pystr" where
  "universal_newlines [] = []"
| "universal_newlines [c] = [if c = 13 then 10 else c]"
| "universal_newlines (c # d # cs) =
     (if c = 13
      then (if d = 10 then 10 # universal_newlines cs else 10 # universal_newlines (d # cs))
      else c # universal_newlines (d # cs))"

fun file_lines :: "pystr \<Rightarrow> pystr list" where
  "file_lines [] = []"
| "file_lines (c # cs) =
     (if c = 10 then [c] # file_lines cs
      else (case file_lines cs of [] \<Rightarrow> [[c]] | l # ls \<Rightarrow> (c # l) # ls))"

text \<open>
  The text of the output file for the text of an input file: the lines are read, the loop
  runs from the initial variables, and the writes follow one another in the file.
\<close>

definition main :: "resolver \<Rightarrow> pystr \<Rightarrow> pystr" where
  "main r text = concat (fst (main_loop r initial_state (file_lines (universal_newlines text))))"

section \<open>The shape of a matched header\<close>

text \<open>
  What the five groups of a match look like, said without the matcher: the prefix is the
  keyword and a run of spaces, the table name a run of non-spaces, the spacer a run of
  spaces, the column list has no closing parenthesis, and the suffix is a run of spaces,
  the keyword \<^verbatim>\<open>FROM\<close>, a run of spaces and \<^verbatim>\<open>stdin;\<close>, the keywords in any case. The lemmas
  below show that the matcher accepts a line exactly when it starts with such groups.
\<close>

definition header_groups :: "pystr \<Rightarrow> pystr \<Rightarrow> pystr \<Rightarrow> pystr \<Rightarrow> pystr \<Rightarrow> bool" where
  "header_groups p t s oc suf \<longleftrightarrow>
     (\<exists>kw1 ws1 ws2 kw2 ws3 kw3.
        p = kw1 @ ws1 \<and> suf = ws2 @ kw2 @ ws3 @ kw3 \<and>
        list_all2 ci_eq (str ''COPY'') kw1 \<and>
        ws1 \<noteq> [] \<and> (\<forall>c\<in>set ws1. isspace c) \<and>
        t \<noteq> [] \<and> (\<forall>c\<in>set t. \<not> isspace c) \<and>
        s \<noteq> [] \<and> (\<forall>c\<in>set s. isspace c) \<and>
        41 \<notin> set oc \<and>
        ws2 \<noteq> [] \<and> (\<forall>c\<in>set ws2. isspace c) \<and>
        list_all2 ci_eq (str ''FROM'') kw2 \<and>
        ws3 \<noteq> [] \<and> (\<forall>c\<in>set ws3. isspace c) \<and>
        list_all2 ci_eq (str ''stdin;'') kw3)"

section \<open>Lines as the file iteration yields them\<close>

text \<open>
  Two facts about the lines of a text read in text mode, used in the proofs about whole
  files: a line is not empty, has no carriage return, and has a line feed at most as its
  last character; and in a sequence of lines every line but the last ends in a line feed.
\<close>

definition line_ok :: "pystr \<Rightarrow> bool" where
  "line_ok l \<longleftrightarrow> l \<noteq> [] \<and> 10 \<notin> set (butlast l) \<and> 13 \<notin> set l"

definition lines_ok :: "pystr list \<Rightarrow> bool" where
  "lines_ok ls \<longleftrightarrow> list_all line_ok ls \<and> list_all (\<lambda>l. last l = 10) (butlast ls)"

section \<open>Sample inputs\<close>

text \<open>
  Three target schemas used in the examples below: table \<open>public.t\<close> with columns
  \<open>a, b, c\<close>; tables \<open>a\<close> with one column and \<open>b\<close> with two; and tables \<open>a\<close> with one
  column and \<open>b\<close> with one column whose quoted name contains a closing parenthesis.
\<close>

definition schema_abc :: resolver where
  "schema_abc t = (if t = str ''public.t'' then [str ''a'', str ''b'', str ''c''] else [])"

definition schema_two_tables :: resolver where
  "schema_two_tables t =
     (if t = str ''a'' then [str ''k'']
      else if t = str ''b'' then [str ''p'', str ''q''] else [])"

definition schema_paren :: resolver where
  "schema_paren t =
     (if t = str ''a'' then [str ''k'']
      else if t = str ''b'' then [[34, 120, 41, 34]] else [])"

section \<open>Properties of the header pattern\<close>

lemma lit_ci_Some_iff:
  "lit_ci pat s = Some (m, r) \<longleftrightarrow> s = m @ r \<and> list_all2 ci_eq pat m"
proof
  assume "lit_ci pat s = Some (m, r)"
  then have a: "length pat \<le> length s" "list_all2 ci_eq pat (take (length pat) s)"
    and b: "m = take (length pat) s" "r = drop (length pat) s"
    by (auto simp: lit_ci_def split: if_splits)
  show "s = m @ r \<and> list_all2 ci_eq pat m" using a b by simp
next
  assume h: "s = m @ r \<and> list_all2 ci_eq pat m"
  then have "length pat = length m" by (auto dest: list_all2_lengthD)
  with h show "lit_ci pat s = Some (m, r)" by (simp add: lit_ci_def)
qed

lemma span_eq_iff:
  "(takeWhile P s = m \<and> dropWhile P s = r) \<longleftrightarrow>
     s = m @ r \<and> (\<forall>x\<in>set m. P x) \<and> (r = [] \<or> \<not> P (hd r))"
proof
  assume h: "takeWhile P s = m \<and> dropWhile P s = r"
  then have "s = m @ r" by (metis takeWhile_dropWhile_id)
  moreover have "\<forall>x\<in>set m. P x" using h by (auto dest: set_takeWhileD)
  moreover have "r = [] \<or> \<not> P (hd r)" using h by (metis hd_dropWhile)
  ultimately show "s = m @ r \<and> (\<forall>x\<in>set m. P x) \<and> (r = [] \<or> \<not> P (hd r))" by blast
next
  assume h: "s = m @ r \<and> (\<forall>x\<in>set m. P x) \<and> (r = [] \<or> \<not> P (hd r))"
  show "takeWhile P s = m \<and> dropWhile P s = r"
  proof (cases r)
    case Nil
    with h show ?thesis by simp
  next
    case (Cons a r')
    with h have "\<not> P a" by simp
    with h Cons show ?thesis by (simp add: takeWhile_tail dropWhile_append3)
  qed
qed

lemma many0_Some_iff:
  "many0 P s = Some (m, r) \<longleftrightarrow>
     s = m @ r \<and> (\<forall>x\<in>set m. P x) \<and> (r = [] \<or> \<not> P (hd r))"
  unfolding many0_def using span_eq_iff [of P s m r] by simp

lemma many1_Some_iff:
  "many1 P s = Some (m, r) \<longleftrightarrow>
     s = m @ r \<and> m \<noteq> [] \<and> (\<forall>x\<in>set m. P x) \<and> (r = [] \<or> \<not> P (hd r))"
  unfolding many1_def using span_eq_iff [of P s m r] by auto


lemma lit_paren_open: "list_all2 ci_eq (str ''('') m \<longleftrightarrow> m = [40]"
  by (auto simp: str_def ci_eq_def list_all2_Cons1)

lemma lit_paren_close: "list_all2 ci_eq (str '')'') m \<longleftrightarrow> m = [41]"
  by (auto simp: str_def ci_eq_def list_all2_Cons1)

lemma ci_letter_not_space: "ci_eq p c \<Longrightarrow> 65 \<le> p \<Longrightarrow> p \<le> 122 \<Longrightarrow> \<not> isspace c"
  by (auto simp: ci_eq_def isspace_def Let_def split: if_splits)

lemma kw_from_hd: "list_all2 ci_eq (str ''FROM'') m \<Longrightarrow> m \<noteq> [] \<and> \<not> isspace (hd m)"
  by (auto simp: str_def list_all2_Cons1 dest: ci_letter_not_space)

lemma kw_stdin_hd: "list_all2 ci_eq (str ''stdin;'') m \<Longrightarrow> m \<noteq> [] \<and> \<not> isspace (hd m)"
  by (auto simp: str_def list_all2_Cons1 dest: ci_letter_not_space)

lemma kw_stdin_last: "list_all2 ci_eq (str ''stdin;'') m \<Longrightarrow> m \<noteq> [] \<and> last m = 59"
  by (auto simp: str_def list_all2_Cons1 ci_eq_def)

lemma kw_copy_hd: "list_all2 ci_eq (str ''COPY'') m \<Longrightarrow> m \<noteq> [] \<and> (hd m = 67 \<or> hd m = 99)"
  by (auto simp: str_def list_all2_Cons1 ci_eq_def)

lemma header_unfold:
  "copy_header_pattern l = Some g \<longleftrightarrow>
     (\<exists>kw1 r1 ws1 r2 t r3 s r4 lp r5 oc r6 rp r7 ws2 r8 kw2 r9 ws3 r10 kw3 r11.
        lit_ci (str ''COPY'') l = Some (kw1, r1) \<and>
        many1 isspace r1 = Some (ws1, r2) \<and>
        many1 (\<lambda>c. \<not> isspace c) r2 = Some (t, r3) \<and>
        many1 isspace r3 = Some (s, r4) \<and>
        lit_ci (str ''('') r4 = Some (lp, r5) \<and>
        many0 (\<lambda>c. c \<noteq> 41) r5 = Some (oc, r6) \<and>
        lit_ci (str '')'') r6 = Some (rp, r7) \<and>
        many1 isspace r7 = Some (ws2, r8) \<and>
        lit_ci (str ''FROM'') r8 = Some (kw2, r9) \<and>
        many1 isspace r9 = Some (ws3, r10) \<and>
        lit_ci (str ''stdin;'') r10 = Some (kw3, r11) \<and>
        (kw1 @ ws1, t, s, oc, ws2 @ kw2 @ ws3 @ kw3) = g)"
  unfolding copy_header_pattern_def
  by (simp add: bind_eq_Some_conv)

lemma header_sound:
  assumes "copy_header_pattern l = Some (p, t, s, oc, suf)"
  shows "header_groups p t s oc suf \<and> (\<exists>rest. l = p @ t @ s @ [40] @ oc @ [41] @ suf @ rest)"
proof -
  from assms obtain kw1 r1 ws1 r2 r3 r4 lp r5 r6 rp r7 ws2 r8 kw2 r9 ws3 r10 kw3 r11 where
    a: "lit_ci (str ''COPY'') l = Some (kw1, r1)"
       "many1 isspace r1 = Some (ws1, r2)"
       "many1 (\<lambda>c. \<not> isspace c) r2 = Some (t, r3)"
       "many1 isspace r3 = Some (s, r4)"
       "lit_ci (str ''('') r4 = Some (lp, r5)"
       "many0 (\<lambda>c. c \<noteq> 41) r5 = Some (oc, r6)"
       "lit_ci (str '')'') r6 = Some (rp, r7)"
       "many1 isspace r7 = Some (ws2, r8)"
       "lit_ci (str ''FROM'') r8 = Some (kw2, r9)"
       "many1 isspace r9 = Some (ws3, r10)"
       "lit_ci (str ''stdin;'') r10 = Some (kw3, r11)"
    and g: "p = kw1 @ ws1" "suf = ws2 @ kw2 @ ws3 @ kw3"
    unfolding header_unfold by blast
  from a have b:
    "l = kw1 @ r1" "list_all2 ci_eq (str ''COPY'') kw1"
    "r1 = ws1 @ r2" "ws1 \<noteq> []" "\<forall>c\<in>set ws1. isspace c"
    "r2 = t @ r3" "t \<noteq> []" "\<forall>c\<in>set t. \<not> isspace c"
    "r3 = s @ r4" "s \<noteq> []" "\<forall>c\<in>set s. isspace c"
    "r4 = lp @ r5" "lp = [40]"
    "r5 = oc @ r6" "\<forall>c\<in>set oc. c \<noteq> 41"
    "r6 = rp @ r7" "rp = [41]"
    "r7 = ws2 @ r8" "ws2 \<noteq> []" "\<forall>c\<in>set ws2. isspace c"
    "r8 = kw2 @ r9" "list_all2 ci_eq (str ''FROM'') kw2"
    "r9 = ws3 @ r10" "ws3 \<noteq> []" "\<forall>c\<in>set ws3. isspace c"
    "r10 = kw3 @ r11" "list_all2 ci_eq (str ''stdin;'') kw3"
    by (simp_all add: lit_ci_Some_iff many1_Some_iff many0_Some_iff lit_paren_open lit_paren_close)
  have "header_groups p t s oc suf"
    unfolding header_groups_def
    apply (rule exI [of _ kw1], rule exI [of _ ws1], rule exI [of _ ws2])
    apply (rule exI [of _ kw2], rule exI [of _ ws3], rule exI [of _ kw3])
    using b g by auto
  moreover have "l = p @ t @ s @ [40] @ oc @ [41] @ suf @ r11"
    using b g by simp
  ultimately show ?thesis by blast
qed

lemma header_complete:
  assumes "header_groups p t s oc suf"
  shows "copy_header_pattern (p @ t @ s @ [40] @ oc @ [41] @ suf @ rest) = Some (p, t, s, oc, suf)"
proof -
  from assms obtain kw1 ws1 ws2 kw2 ws3 kw3 where
    g: "p = kw1 @ ws1" "suf = ws2 @ kw2 @ ws3 @ kw3" and
    b: "list_all2 ci_eq (str ''COPY'') kw1"
       "ws1 \<noteq> []" "\<forall>c\<in>set ws1. isspace c"
       "t \<noteq> []" "\<forall>c\<in>set t. \<not> isspace c"
       "s \<noteq> []" "\<forall>c\<in>set s. isspace c"
       "41 \<notin> set oc"
       "ws2 \<noteq> []" "\<forall>c\<in>set ws2. isspace c"
       "list_all2 ci_eq (str ''FROM'') kw2"
       "ws3 \<noteq> []" "\<forall>c\<in>set ws3. isspace c"
       "list_all2 ci_eq (str ''stdin;'') kw3"
    unfolding header_groups_def by blast
  let ?r11 = rest
  let ?r10 = "kw3 @ ?r11"
  let ?r9 = "ws3 @ ?r10"
  let ?r8 = "kw2 @ ?r9"
  let ?r7 = "ws2 @ ?r8"
  let ?r6 = "41 # ?r7"
  let ?r5 = "oc @ ?r6"
  let ?r4 = "40 # ?r5"
  let ?r3 = "s @ ?r4"
  let ?r2 = "t @ ?r3"
  let ?r1 = "ws1 @ ?r2"
  have s1: "lit_ci (str ''COPY'') (kw1 @ ?r1) = Some (kw1, ?r1)"
    using b by (simp add: lit_ci_Some_iff)
  have s2: "many1 isspace ?r1 = Some (ws1, ?r2)"
    using b unfolding many1_Some_iff by (cases t) auto
  have s3: "many1 (\<lambda>c. \<not> isspace c) ?r2 = Some (t, ?r3)"
    using b unfolding many1_Some_iff by (cases s) auto
  have s4: "many1 isspace ?r3 = Some (s, ?r4)"
    using b unfolding many1_Some_iff by (simp add: isspace_def)
  have s5: "lit_ci (str ''('') ?r4 = Some ([40], ?r5)"
    using lit_ci_Some_iff [of "str ''(''" ?r4 "[40]" ?r5] by (simp add: lit_paren_open)
  have s6: "many0 (\<lambda>c. c \<noteq> 41) ?r5 = Some (oc, ?r6)"
    using b unfolding many0_Some_iff by auto
  have s7: "lit_ci (str '')'') ?r6 = Some ([41], ?r7)"
    using lit_ci_Some_iff [of "str '')''" ?r6 "[41]" ?r7] by (simp add: lit_paren_close)
  have s8: "many1 isspace ?r7 = Some (ws2, ?r8)"
    using b kw_from_hd [of kw2] unfolding many1_Some_iff by (cases kw2) auto
  have s9: "lit_ci (str ''FROM'') ?r8 = Some (kw2, ?r9)"
    using b by (simp add: lit_ci_Some_iff)
  have s10: "many1 isspace ?r9 = Some (ws3, ?r10)"
    using b kw_stdin_hd [of kw3] unfolding many1_Some_iff by (cases kw3) auto
  have s11: "lit_ci (str ''stdin;'') ?r10 = Some (kw3, ?r11)"
    using b by (simp add: lit_ci_Some_iff)
  have "copy_header_pattern (kw1 @ ?r1) = Some (kw1 @ ws1, t, s, oc, ws2 @ kw2 @ ws3 @ kw3)"
    unfolding copy_header_pattern_def by (simp add: s1 s2 s3 s4 s5 s6 s7 s8 s9 s10 s11)
  then show ?thesis using g by simp
qed

section \<open>Evaluation rules for the examples\<close>

lemmas eval_header =
  copy_header_pattern_def str_def lit_ci_def many1_def many0_def ci_eq_def isspace_def

lemma rstrip_keeps_head:
  assumes "\<not> isspace c"
  shows "\<exists>ys. rstrip (c # cs) = c # ys"
proof (cases "\<forall>x\<in>set (rev cs). isspace x")
  case True
  then have "dropWhile isspace (rev cs @ [c]) = [c]"
    using assms by (simp add: dropWhile_append)
  then show ?thesis by (simp add: rstrip_def)
next
  case False
  then have "dropWhile isspace (rev cs @ [c]) = dropWhile isspace (rev cs) @ [c]"
    by (simp add: dropWhile_append)
  then show ?thesis by (simp add: rstrip_def)
qed

lemma header_first_char:
  assumes "copy_header_pattern l = Some g"
  shows "l \<noteq> [] \<and> (hd l = 67 \<or> hd l = 99)"
proof -
  obtain p t s oc suf where g: "g = (p, t, s, oc, suf)" by (cases g) auto
  from header_sound [OF assms [unfolded g]] obtain kw1 ws1 rest where
    "l = (kw1 @ ws1) @ t @ s @ [40] @ oc @ [41] @ suf @ rest"
    "list_all2 ci_eq (str ''COPY'') kw1"
    unfolding header_groups_def by blast
  then show ?thesis using kw_copy_hd [of kw1] by (cases kw1) auto
qed

lemma terminator_not_header:
  assumes "strip l = [92, 46]"
  shows "copy_header_pattern l = None"
proof (rule ccontr)
  assume "copy_header_pattern l \<noteq> None"
  then obtain g where "copy_header_pattern l = Some g" by blast
  then have h: "l \<noteq> []" "hd l = 67 \<or> hd l = 99" using header_first_char by blast+
  then obtain c cs where l: "l = c # cs" by (cases l) auto
  with h have c: "c = 67 \<or> c = 99" by simp
  then have ns: "\<not> isspace c" by (auto simp: isspace_def)
  then have "lstrip l = l" by (simp add: lstrip_def l)
  then have "strip l = rstrip (c # cs)" by (simp add: strip_def l)
  with rstrip_keeps_head [OF ns, of cs] obtain ys where "strip l = c # ys" by auto
  with assms c show False by auto
qed

section \<open>The terminator line\<close>

text \<open>
  Claim C7. Whenever a block is open, with the count known or unknown, a line whose
  stripped content is exactly backslash, dot is written unchanged, the block is closed and
  the three variables are reset: no current table, expected count 0, not in a block.
  Such a line never matches the header pattern, so no assumption on the header test is
  needed.
\<close>

theorem terminator_closes_block:
  assumes "in_copy_block st" and "strip line = [92, 46]"
  shows "main_step r st line =
           (line, \<lparr>in_copy_block = False, expected_col_count = Some 0, current_table = None\<rparr>)"
  using assms terminator_not_header [of line] by (simp add: main_step_def)

theorem terminator_closes_block_witness:
  "in_copy_block \<lparr>in_copy_block = True, expected_col_count = Some 3,
                   current_table = Some (str ''public.t'')\<rparr> \<and>
   in_copy_block \<lparr>in_copy_block = True, expected_col_count = None,
                   current_table = Some (str ''public.t'')\<rparr> \<and>
   strip [32, 92, 46, 9, 10] = [92, 46] \<and>
   main_step schema_abc \<lparr>in_copy_block = True, expected_col_count = Some 3,
                          current_table = Some (str ''public.t'')\<rparr> [32, 92, 46, 9, 10] =
     ([32, 92, 46, 9, 10],
      \<lparr>in_copy_block = False, expected_col_count = Some 0, current_table = None\<rparr>) \<and>
   main_step schema_abc \<lparr>in_copy_block = True, expected_col_count = None,
                          current_table = Some (str ''public.t'')\<rparr> [32, 92, 46, 9, 10] =
     ([32, 92, 46, 9, 10],
      \<lparr>in_copy_block = False, expected_col_count = Some 0, current_table = None\<rparr>)"
proof -
  have t: "strip [32, 92, 46, 9, 10] = [92, 46]"
    by (simp add: strip_def lstrip_def rstrip_def isspace_def)
  show ?thesis
    using t
      terminator_closes_block [of "\<lparr>in_copy_block = True, expected_col_count = Some 3,
        current_table = Some (str ''public.t'')\<rparr>" "[32, 92, 46, 9, 10]" schema_abc]
      terminator_closes_block [of "\<lparr>in_copy_block = True, expected_col_count = None,
        current_table = Some (str ''public.t'')\<rparr>" "[32, 92, 46, 9, 10]" schema_abc]
    by simp
qed

section \<open>Lines outside a block\<close>

text \<open>
  Claim C8. A line read while no block is open, and that does not match the header
  pattern, is written exactly as it was read, and the variables are left as they were.
\<close>

theorem outside_block_passthrough:
  assumes "\<not> in_copy_block st" and "copy_header_pattern line = None"
  shows "main_step r st line = (line, st)"
  using assms by (simp add: main_step_def)

theorem outside_block_passthrough_witness:
  "\<not> in_copy_block initial_state \<and>
   copy_header_pattern (str ''COPY public.t FROM stdin;'' @ [10]) = None \<and>
   main_step schema_abc initial_state (str ''COPY public.t FROM stdin;'' @ [10]) =
     (str ''COPY public.t FROM stdin;'' @ [10], initial_state)"
proof -
  have n: "\<not> in_copy_block initial_state" by (simp add: initial_state_def)
  have h: "copy_header_pattern (str ''COPY public.t FROM stdin;'' @ [10]) = None"
    by (simp add: eval_header)
  show ?thesis using n h outside_block_passthrough [OF n h, of schema_abc] by simp
qed

section \<open>Properties of split, join and rstrip\<close>

lemma split_not_Nil [simp]: "split sep s \<noteq> []"
  by (induction s) auto

lemma join_Cons_Cons: "join sep ((c # f) # fs) = c # join sep (f # fs)"
  by (cases fs) auto

lemma join_Nil_Cons: "fs \<noteq> [] \<Longrightarrow> join sep ([] # fs) = sep @ join sep fs"
  by (cases fs) auto

lemma join_split: "join [sep] (split sep s) = s"
proof (induction s)
  case Nil
  show ?case by simp
next
  case (Cons c cs)
  show ?case
  proof (cases "c = sep")
    case True
    then show ?thesis using Cons by (simp add: join_Nil_Cons)
  next
    case False
    have "join [sep] ((c # hd (split sep cs)) # tl (split sep cs)) =
            c # join [sep] (hd (split sep cs) # tl (split sep cs))"
      by (rule join_Cons_Cons)
    then show ?thesis using False Cons by simp
  qed
qed

lemma rstrip_nl_snoc: "rstrip_nl (s @ [10]) = rstrip_nl s"
  by (simp add: rstrip_nl_def)

lemma rstrip_nl_id: "s = [] \<or> last s \<noteq> 10 \<Longrightarrow> rstrip_nl s = s"
  by (cases s rule: rev_cases) (auto simp: rstrip_nl_def)

lemma rstrip_nl_line:
  assumes "line \<noteq> []" and "last line = 10" and "10 \<notin> set (butlast line)"
  shows "rstrip_nl line @ [10] = line"
proof -
  from assms(1,2) have l: "line = butlast line @ [10]"
    by (metis append_butlast_last_id)
  have "rstrip_nl (butlast line) = butlast line"
    using assms(3) by (intro rstrip_nl_id) (metis last_in_set)
  then have "rstrip_nl (butlast line @ [10]) @ [10] = butlast line @ [10]"
    by (simp add: rstrip_nl_snoc)
  with l show ?thesis by simp
qed

section \<open>The rewritten header\<close>

text \<open>
  Claim C10. When a line matches the header pattern and the resolver returns a non-empty
  column list for the matched table, the text written is the matched prefix, the table
  name, the spacer, the resolved column names joined by comma and space between
  parentheses, the matched suffix and a line feed. The line is the five groups followed by
  some rest; the suffix ends with \<^verbatim>\<open>stdin;\<close> in some case; and the step does the same
  whatever follows the suffix on the line, so the rest is dropped from the output.
\<close>

theorem header_rewritten:
  assumes "copy_header_pattern line = Some (prefix, full_table, spacer, orig_cols, suffix)"
    and "r full_table \<noteq> []"
  shows "fst (main_step r st line) =
           prefix @ full_table @ spacer @ str ''('' @ join (str '', '') (r full_table) @
           str '')'' @ suffix @ [10] \<and>
         (\<exists>rest. line = prefix @ full_table @ spacer @ str ''('' @ orig_cols @ str '')'' @
                         suffix @ rest) \<and>
         (\<forall>rest'. main_step r st (prefix @ full_table @ spacer @ str ''('' @ orig_cols @
                                   str '')'' @ suffix @ rest') = main_step r st line) \<and>
         (\<exists>ws kw. suffix = ws @ kw \<and> list_all2 ci_eq (str ''stdin;'') kw)"
proof -
  have par: "str ''('' = [40]" "str '')'' = [41]" by (simp_all add: str_def)
  from header_sound [OF assms(1)] have g: "header_groups prefix full_table spacer orig_cols suffix"
    and l: "\<exists>rest. line = prefix @ full_table @ spacer @ [40] @ orig_cols @ [41] @ suffix @ rest"
    by blast+
  have a: "fst (main_step r st line) =
           prefix @ full_table @ spacer @ str ''('' @ join (str '', '') (r full_table) @
           str '')'' @ suffix @ [10]"
    using assms by (simp add: main_step_def Let_def)
  have b: "main_step r st (prefix @ full_table @ spacer @ str ''('' @ orig_cols @
                                   str '')'' @ suffix @ rest') = main_step r st line" for rest'
    using header_complete [OF g, of rest'] assms by (simp add: main_step_def par Let_def)
  have c: "\<exists>ws kw. suffix = ws @ kw \<and> list_all2 ci_eq (str ''stdin;'') kw"
  proof -
    from g obtain ws2 kw2 ws3 kw3 where
      "suffix = ws2 @ kw2 @ ws3 @ kw3" "list_all2 ci_eq (str ''stdin;'') kw3"
      unfolding header_groups_def by blast
    then have "suffix = (ws2 @ kw2 @ ws3) @ kw3 \<and> list_all2 ci_eq (str ''stdin;'') kw3" by simp
    then show ?thesis by blast
  qed
  from a l b c show ?thesis unfolding par by blast
qed

theorem header_rewritten_witness:
  "copy_header_pattern (str ''COPY public.t (a, b) FROM stdin; -- junk'' @ [10]) =
     Some (str ''COPY '', str ''public.t'', str '' '', str ''a, b'', str '' FROM stdin;'') \<and>
   schema_abc (str ''public.t'') \<noteq> [] \<and>
   fst (main_step schema_abc initial_state
          (str ''COPY public.t (a, b) FROM stdin; -- junk'' @ [10])) =
     str ''COPY public.t (a, b, c) FROM stdin;'' @ [10]"
proof -
  have h: "copy_header_pattern (str ''COPY public.t (a, b) FROM stdin; -- junk'' @ [10]) =
     Some (str ''COPY '', str ''public.t'', str '' '', str ''a, b'', str '' FROM stdin;'')"
    by (simp add: eval_header)
  have n: "schema_abc (str ''public.t'') \<noteq> []" by (simp add: schema_abc_def)
  show ?thesis
    using h n header_rewritten [where r = schema_abc and st = initial_state, OF h n]
    by (simp add: schema_abc_def str_def)
qed

section \<open>Data rows in a block with a known count\<close>

lemma data_row_step:
  assumes "in_copy_block st" and "expected_col_count st = Some n"
    and "copy_header_pattern line = None" and "strip line \<noteq> [92, 46]"
  shows "main_step r st line = (fix_row n line, st)"
  using assms by (simp add: main_step_def)

text \<open>
  The rules below are those of lines 155 to 166. The loop reaches them only for a line that
  the header pattern does not match, since the header test of line 122 comes first; each
  lemma therefore carries that condition. What the loop does with a row of an open block
  that the pattern does match is shown in the last section.
\<close>

text \<open>
  In a block with known expected count \<open>n\<close>, a line that the header pattern does not
  match, that is not the terminator and that splits on tabs into exactly \<open>n + 1\<close> fields,
  the last of them empty, is written as its first \<open>n\<close> fields joined by tabs, followed by
  a line feed; the variables do not change.
\<close>

lemma trailing_empty_field_dropped:
  assumes "in_copy_block st" and "expected_col_count st = Some n"
    and "copy_header_pattern line = None" and "strip line \<noteq> [92, 46]"
    and "length (split 9 (rstrip_nl line)) = n + 1"
    and "last (split 9 (rstrip_nl line)) = []"
  shows "main_step r st line = (join [9] (take n (split 9 (rstrip_nl line))) @ [10], st)"
proof -
  have "butlast (split 9 (rstrip_nl line)) = take n (split 9 (rstrip_nl line))"
    using assms(5) by (simp add: butlast_conv_take)
  then have "fix_row n line = join [9] (take n (split 9 (rstrip_nl line))) @ [10]"
    using assms(5,6) by (simp add: fix_row_def Let_def)
  then show ?thesis using data_row_step [OF assms(1-4)] by simp
qed

lemmas eval_row = fix_row_def rstrip_nl_def strip_def lstrip_def rstrip_def Let_def

lemma trailing_empty_field_dropped_example:
  "in_copy_block \<lparr>in_copy_block = True, expected_col_count = Some 3,
                   current_table = Some (str ''public.t'')\<rparr> \<and>
   expected_col_count \<lparr>in_copy_block = True, expected_col_count = Some 3,
                        current_table = Some (str ''public.t'')\<rparr> = Some 3 \<and>
   copy_header_pattern [49, 9, 50, 9, 51, 9, 10] = None \<and>
   strip [49, 9, 50, 9, 51, 9, 10] \<noteq> [92, 46] \<and>
   length (split 9 (rstrip_nl [49, 9, 50, 9, 51, 9, 10])) = 3 + 1 \<and>
   last (split 9 (rstrip_nl [49, 9, 50, 9, 51, 9, 10])) = [] \<and>
   main_step schema_abc \<lparr>in_copy_block = True, expected_col_count = Some 3,
                          current_table = Some (str ''public.t'')\<rparr>
       [49, 9, 50, 9, 51, 9, 10] =
     ([49, 9, 50, 9, 51, 10],
      \<lparr>in_copy_block = True, expected_col_count = Some 3,
       current_table = Some (str ''public.t'')\<rparr>)"
proof -
  let ?st = "\<lparr>in_copy_block = True, expected_col_count = Some 3,
               current_table = Some (str ''public.t'')\<rparr>"
  let ?l = "[49, 9, 50, 9, 51, 9, 10] :: pystr"
  have a: "in_copy_block ?st" "expected_col_count ?st = Some 3" by simp_all
  have h: "copy_header_pattern ?l = None" by (simp add: eval_header)
  have t: "strip ?l \<noteq> [92, 46]" by (simp add: eval_row isspace_def)
  have f: "length (split 9 (rstrip_nl ?l)) = 3 + 1" "last (split 9 (rstrip_nl ?l)) = []"
    by (simp_all add: eval_row)
  show ?thesis
    using a h t f trailing_empty_field_dropped [OF a h t f, of schema_abc]
    by (simp add: eval_row)
qed

text \<open>
  In a block with known expected count \<open>n\<close>, a line that the header pattern does not
  match, that is not the terminator and that has more than \<open>n + 1\<close> tab-separated fields,
  or exactly \<open>n + 1\<close> fields of which the last is not empty, is written as its first
  \<open>n\<close> fields joined by tabs, followed by a line feed: every further field is discarded,
  whatever it holds.
\<close>

lemma extra_fields_truncated:
  assumes "in_copy_block st" and "expected_col_count st = Some n"
    and "copy_header_pattern line = None" and "strip line \<noteq> [92, 46]"
    and "length (split 9 (rstrip_nl line)) > n + 1 \<or>
         (length (split 9 (rstrip_nl line)) = n + 1 \<and> last (split 9 (rstrip_nl line)) \<noteq> [])"
  shows "main_step r st line = (join [9] (take n (split 9 (rstrip_nl line))) @ [10], st)"
proof -
  have "fix_row n line = join [9] (take n (split 9 (rstrip_nl line))) @ [10]"
    using assms(5) by (auto simp: fix_row_def Let_def)
  then show ?thesis using data_row_step [OF assms(1-4)] by simp
qed

lemma extra_fields_truncated_example:
  "in_copy_block \<lparr>in_copy_block = True, expected_col_count = Some 2,
                   current_table = Some (str ''b'')\<rparr> \<and>
   expected_col_count \<lparr>in_copy_block = True, expected_col_count = Some 2,
                        current_table = Some (str ''b'')\<rparr> = Some 2 \<and>
   copy_header_pattern [49, 9, 50, 9, 51, 10] = None \<and>
   strip [49, 9, 50, 9, 51, 10] \<noteq> [92, 46] \<and>
   copy_header_pattern [49, 9, 50, 9, 9, 9, 10] = None \<and>
   strip [49, 9, 50, 9, 9, 9, 10] \<noteq> [92, 46] \<and>
   length (split 9 (rstrip_nl [49, 9, 50, 9, 51, 10])) = 2 + 1 \<and>
   last (split 9 (rstrip_nl [49, 9, 50, 9, 51, 10])) \<noteq> [] \<and>
   length (split 9 (rstrip_nl [49, 9, 50, 9, 9, 9, 10])) > 2 + 1 \<and>
   main_step schema_two_tables \<lparr>in_copy_block = True, expected_col_count = Some 2,
                          current_table = Some (str ''b'')\<rparr> [49, 9, 50, 9, 51, 10] =
     ([49, 9, 50, 10],
      \<lparr>in_copy_block = True, expected_col_count = Some 2, current_table = Some (str ''b'')\<rparr>) \<and>
   main_step schema_two_tables \<lparr>in_copy_block = True, expected_col_count = Some 2,
                          current_table = Some (str ''b'')\<rparr> [49, 9, 50, 9, 9, 9, 10] =
     ([49, 9, 50, 10],
      \<lparr>in_copy_block = True, expected_col_count = Some 2, current_table = Some (str ''b'')\<rparr>)"
proof -
  let ?st = "\<lparr>in_copy_block = True, expected_col_count = Some 2,
               current_table = Some (str ''b'')\<rparr>"
  let ?l = "[49, 9, 50, 9, 51, 10] :: pystr"
  let ?m = "[49, 9, 50, 9, 9, 9, 10] :: pystr"
  have a: "in_copy_block ?st" "expected_col_count ?st = Some 2" by simp_all
  have h: "copy_header_pattern ?l = None" "copy_header_pattern ?m = None"
    by (simp_all add: eval_header)
  have t: "strip ?l \<noteq> [92, 46]" "strip ?m \<noteq> [92, 46]" by (simp_all add: eval_row isspace_def)
  have f: "length (split 9 (rstrip_nl ?l)) = 2 + 1" "last (split 9 (rstrip_nl ?l)) \<noteq> []"
    "length (split 9 (rstrip_nl ?m)) > 2 + 1"
    by (simp_all add: eval_row)
  have fl: "length (split 9 (rstrip_nl ?l)) > 2 + 1 \<or>
         (length (split 9 (rstrip_nl ?l)) = 2 + 1 \<and> last (split 9 (rstrip_nl ?l)) \<noteq> [])"
    using f by blast
  have fm: "length (split 9 (rstrip_nl ?m)) > 2 + 1 \<or>
         (length (split 9 (rstrip_nl ?m)) = 2 + 1 \<and> last (split 9 (rstrip_nl ?m)) \<noteq> [])"
    using f by blast
  show ?thesis
    using a h t f
      extra_fields_truncated [OF a h(1) t(1) fl, of schema_two_tables]
      extra_fields_truncated [OF a h(2) t(2) fm, of schema_two_tables]
    by (simp add: eval_row)
qed

text \<open>
  In a block with known expected count \<open>n\<close>, a line that the header pattern does not
  match, that is not the terminator and that splits into fewer than \<open>n\<close> tab-separated
  fields is written unchanged: what is written is the row (the line without its trailing
  line feed) followed by a line feed, with no field added. For a line as the file iteration
  yields it with its line feed, that is the line itself.
\<close>

lemma short_row_unchanged:
  assumes "in_copy_block st" and "expected_col_count st = Some n"
    and "copy_header_pattern line = None" and "strip line \<noteq> [92, 46]"
    and "length (split 9 (rstrip_nl line)) < n"
  shows "main_step r st line = (rstrip_nl line @ [10], st) \<and>
         (line \<noteq> [] \<and> last line = 10 \<and> 10 \<notin> set (butlast line) \<longrightarrow>
            main_step r st line = (line, st))"
proof -
  have "fix_row n line = join [9] (split 9 (rstrip_nl line)) @ [10]"
    using assms(5) by (simp add: fix_row_def Let_def)
  then have "fix_row n line = rstrip_nl line @ [10]" by (simp add: join_split)
  then have a: "main_step r st line = (rstrip_nl line @ [10], st)"
    using data_row_step [OF assms(1-4)] by simp
  then show ?thesis using rstrip_nl_line [of line] by auto
qed

lemma short_row_unchanged_example:
  "in_copy_block \<lparr>in_copy_block = True, expected_col_count = Some 3,
                   current_table = Some (str ''public.t'')\<rparr> \<and>
   expected_col_count \<lparr>in_copy_block = True, expected_col_count = Some 3,
                        current_table = Some (str ''public.t'')\<rparr> = Some 3 \<and>
   copy_header_pattern [49, 9, 50, 10] = None \<and>
   strip [49, 9, 50, 10] \<noteq> [92, 46] \<and>
   length (split 9 (rstrip_nl [49, 9, 50, 10])) < 3 \<and>
   [49, 9, 50, 10] \<noteq> ([] :: pystr) \<and> last [49, 9, 50, 10 :: nat] = 10 \<and>
   (10 :: nat) \<notin> set (butlast [49, 9, 50, 10]) \<and>
   main_step schema_abc \<lparr>in_copy_block = True, expected_col_count = Some 3,
                          current_table = Some (str ''public.t'')\<rparr> [49, 9, 50, 10] =
     ([49, 9, 50, 10],
      \<lparr>in_copy_block = True, expected_col_count = Some 3,
       current_table = Some (str ''public.t'')\<rparr>)"
proof -
  let ?st = "\<lparr>in_copy_block = True, expected_col_count = Some 3,
               current_table = Some (str ''public.t'')\<rparr>"
  let ?l = "[49, 9, 50, 10] :: pystr"
  have a: "in_copy_block ?st" "expected_col_count ?st = Some 3" by simp_all
  have h: "copy_header_pattern ?l = None" by (simp add: eval_header)
  have t: "strip ?l \<noteq> [92, 46]" by (simp add: eval_row isspace_def)
  have f: "length (split 9 (rstrip_nl ?l)) < 3" by (simp add: eval_row)
  show ?thesis
    using a h t f short_row_unchanged [OF a h t f, of schema_abc]
    by (simp add: rstrip_nl_def)
qed

section \<open>Runs of the loop\<close>

lemma main_loop_append:
  "main_loop r st (xs @ ys) =
     (fst (main_loop r st xs) @ fst (main_loop r (snd (main_loop r st xs)) ys),
      snd (main_loop r (snd (main_loop r st xs)) ys))"
  by (induction xs arbitrary: st) (auto split: prod.splits)

lemma main_loop_Cons:
  "main_loop r st (l # ls) =
     (fst (main_step r st l) # fst (main_loop r (snd (main_step r st l)) ls),
      snd (main_loop r (snd (main_step r st l)) ls))"
  by (auto split: prod.splits)

lemma header_step_unknown:
  assumes "copy_header_pattern hdr = Some (p, t, s, oc, suf)" and "r t = []"
  shows "main_step r st hdr =
           (hdr, \<lparr>in_copy_block = True, expected_col_count = None, current_table = Some t\<rparr>)"
  using assms by (simp add: main_step_def)


lemma rows_unknown:
  assumes "\<forall>l\<in>set rows. copy_header_pattern l = None \<and> strip l \<noteq> [92, 46]"
    and "in_copy_block st" and "expected_col_count st = None"
  shows "main_loop r st rows = (rows, st)"
  using assms
proof (induction rows)
  case Nil
  show ?case by simp
next
  case (Cons l rows)
  then have "main_step r st l = (l, st)" by (simp add: main_step_def)
  then show ?case using Cons by simp
qed


section \<open>A block whose table the resolver does not know\<close>

text \<open>
  When the resolver returns the empty list for the table of a header, the header line and
  the lines that follow it are written exactly as read, as long as none of them is the
  terminator or matches the header pattern; the loop goes on with the lines after them, in
  a block that is still open with the count unknown.
\<close>

lemma unknown_table_block_unchanged:
  assumes "copy_header_pattern hdr = Some (p, t, s, oc, suf)" and "r t = []"
    and "\<forall>l\<in>set rows. copy_header_pattern l = None \<and> strip l \<noteq> [92, 46]"
  shows "main_loop r st (hdr # rows @ rest) =
           (hdr # rows @
              fst (main_loop r \<lparr>in_copy_block = True, expected_col_count = None,
                                current_table = Some t\<rparr> rest),
            snd (main_loop r \<lparr>in_copy_block = True, expected_col_count = None,
                              current_table = Some t\<rparr> rest))"
proof -
  let ?u = "\<lparr>in_copy_block = True, expected_col_count = None, current_table = Some t\<rparr>"
  have "main_loop r ?u rows = (rows, ?u)"
    using rows_unknown [OF assms(3), of ?u r] by simp
  then have "main_loop r ?u (rows @ rest) =
               (rows @ fst (main_loop r ?u rest), snd (main_loop r ?u rest))"
    by (simp add: main_loop_append)
  then show ?thesis
    using header_step_unknown [where r = r and st = st, OF assms(1,2)]
    by (simp add: main_loop_Cons)
qed

lemma unknown_table_block_unchanged_example:
  "copy_header_pattern (str ''COPY other (x, y) FROM stdin;'' @ [10]) =
     Some (str ''COPY '', str ''other'', str '' '', str ''x, y'', str '' FROM stdin;'') \<and>
   schema_abc (str ''other'') = [] \<and>
   copy_header_pattern [49, 9, 50, 9, 51, 9, 10] = None \<and>
   strip [49, 9, 50, 9, 51, 9, 10] \<noteq> [92, 46] \<and>
   copy_header_pattern [49, 10] = None \<and>
   strip [49, 10] \<noteq> [92, 46] \<and>
   main_loop schema_abc initial_state
     ((str ''COPY other (x, y) FROM stdin;'' @ [10]) #
      [[49, 9, 50, 9, 51, 9, 10], [49, 10]] @ [[92, 46, 10], [45, 45, 10]]) =
     ([str ''COPY other (x, y) FROM stdin;'' @ [10],
       [49, 9, 50, 9, 51, 9, 10], [49, 10], [92, 46, 10], [45, 45, 10]],
      initial_state)"
proof -
  let ?h = "str ''COPY other (x, y) FROM stdin;'' @ [10]"
  let ?rows = "[[49, 9, 50, 9, 51, 9, 10], [49, 10]] :: pystr list"
  have h: "copy_header_pattern ?h =
     Some (str ''COPY '', str ''other'', str '' '', str ''x, y'', str '' FROM stdin;'')"
    by (simp add: eval_header)
  have e: "schema_abc (str ''other'') = []" by (simp add: schema_abc_def str_def)
  have d: "\<forall>l\<in>set ?rows. copy_header_pattern l = None \<and> strip l \<noteq> [92, 46]"
    by (simp add: eval_header eval_row)
  have t: "main_loop schema_abc \<lparr>in_copy_block = True, expected_col_count = None,
              current_table = Some (str ''other'')\<rparr> [[92, 46, 10], [45, 45, 10]] =
           ([[92, 46, 10], [45, 45, 10]], initial_state)"
    by (simp add: main_step_def initial_state_def eval_header eval_row)
  show ?thesis
    using h e d
      unknown_table_block_unchanged [where r = schema_abc and st = initial_state
        and rest = "[[92, 46, 10], [45, 45, 10]]", OF h e d]
    by (simp add: t del: main_loop.simps)
qed

section \<open>Counting fields\<close>


lemma split_no_sep: "f \<in> set (split sep s) \<Longrightarrow> sep \<notin> set f"
proof (induction s arbitrary: f)
  case Nil
  then show ?case by simp
next
  case (Cons c cs)
  have hdtl: "split sep cs = hd (split sep cs) # tl (split sep cs)" by simp
  show ?case
  proof (cases "c = sep")
    case True
    with Cons show ?thesis by auto
  next
    case False
    with Cons.prems have "f = c # hd (split sep cs) \<or> f \<in> set (tl (split sep cs))" by simp
    then show ?thesis
    proof
      assume "f = c # hd (split sep cs)"
      moreover have "sep \<notin> set (hd (split sep cs))"
        using Cons.IH [of "hd (split sep cs)"] hdtl by (metis list.set_intros(1))
      ultimately show ?thesis using False by auto
    next
      assume "f \<in> set (tl (split sep cs))"
      then have "f \<in> set (split sep cs)" using hdtl by (metis list.set_intros(2))
      then show ?thesis using Cons.IH by blast
    qed
  qed
qed


lemma rstrip_nl_decomp: "\<exists>k. s = rstrip_nl s @ replicate k 10"
proof -
  have "rev s = takeWhile (\<lambda>c. c = 10) (rev s) @ dropWhile (\<lambda>c. c = 10) (rev s)" by simp
  then have "s = rev (dropWhile (\<lambda>c. c = 10) (rev s)) @ rev (takeWhile (\<lambda>c. c = 10) (rev s))"
    by (metis rev_append rev_rev_ident)
  moreover have "\<exists>k. rev (takeWhile (\<lambda>c. c = 10) (rev s)) = replicate k 10"
  proof -
    have "\<forall>x\<in>set (rev (takeWhile (\<lambda>c. c = 10) (rev s))). x = 10"
      by (auto dest: set_takeWhileD)
    then have "rev (takeWhile (\<lambda>c. c = 10) (rev s)) =
                 replicate (length (rev (takeWhile (\<lambda>c. c = 10) (rev s)))) 10"
      by (metis replicate_length_same)
    then show ?thesis by blast
  qed
  ultimately show ?thesis unfolding rstrip_nl_def by metis
qed





section \<open>The field count of the rows of a block\<close>




section \<open>Evaluating long rows\<close>

lemma split_eval:
  "split sep (c # cs) =
     (if c = sep then [] # split sep cs
      else (case split sep cs of [] \<Rightarrow> [[c]] | f # fs \<Rightarrow> (c # f) # fs))"
  by (cases "split sep cs") auto

lemmas eval_long_row = fix_row_def rstrip_nl_def Let_def split_eval

section \<open>Splitting what was joined\<close>

lemma split_without_sep: "sep \<notin> set a \<Longrightarrow> split sep a = [a]"
  by (induction a) auto

lemma split_append_sep: "sep \<notin> set a \<Longrightarrow> split sep (a @ sep # b) = a # split sep b"
  by (induction a) auto

lemma split_join:
  "fs \<noteq> [] \<Longrightarrow> \<forall>f\<in>set fs. sep \<notin> set f \<Longrightarrow> split sep (join [sep] fs) = fs"
proof (induction "[sep]" fs rule: join.induct)
  case 1
  then show ?case by simp
next
  case (2 f)
  then show ?case by (simp add: split_without_sep)
next
  case (3 f g fs)
  then have "split sep (join [sep] (g # fs)) = g # fs" by simp
  moreover have "sep \<notin> set f" using 3 by simp
  ultimately show ?case using split_append_sep [of sep f "join [sep] (g # fs)"] by simp
qed

lemma set_join: "set (join sep fs) \<subseteq> set sep \<union> \<Union> (set ` set fs)"
  by (induction sep fs rule: join.induct) auto

lemma join_take_prefix: "\<exists>rest. join [sep] fs = join [sep] (take n fs) @ rest"
proof (induction "[sep]" fs arbitrary: n rule: join.induct)
  case 1
  show ?case by simp
next
  case (2 f)
  show ?case by (cases n) simp_all
next
  case (3 f g fs)
  show ?case
  proof (cases n)
    case 0
    then show ?thesis by simp
  next
    case (Suc m)
    show ?thesis
    proof (cases m)
      case 0
      with Suc show ?thesis by simp
    next
      case (Suc k)
      obtain rest where "join [sep] (g # fs) = join [sep] (take m (g # fs)) @ rest"
        using 3 by blast
      moreover have "take m (g # fs) = g # take k fs" using Suc by simp
      ultimately have "f @ [sep] @ join [sep] (g # fs) =
                       (f @ [sep] @ join [sep] (g # take k fs)) @ rest"
        by simp
      then show ?thesis using \<open>n = Suc m\<close> Suc by auto
    qed
  qed
qed

section \<open>The row rule as a single truncation\<close>

lemma fix_row_eq: "fix_row n l = join [9] (take n (split 9 (rstrip_nl l))) @ [10]"
proof -
  let ?fs = "split 9 (rstrip_nl l)"
  show ?thesis
  proof (cases "length ?fs = n + 1 \<and> last ?fs = []")
    case True
    then have "butlast ?fs = take n ?fs" by (simp add: butlast_conv_take)
    then show ?thesis using True by (simp add: fix_row_def Let_def)
  next
    case False
    then show ?thesis by (auto simp: fix_row_def Let_def)
  qed
qed

lemma rstrip_nl_no_trailing: "rstrip_nl s = [] \<or> last (rstrip_nl s) \<noteq> 10"
proof -
  have "dropWhile (\<lambda>c. c = 10) (rev s) = [] \<or> hd (dropWhile (\<lambda>c. c = 10) (rev s)) \<noteq> 10"
    using hd_dropWhile [of "\<lambda>c. c = 10" "rev s"] by blast
  then show ?thesis unfolding rstrip_nl_def by (auto simp: last_rev)
qed

lemma row_without_nl:
  assumes "10 \<notin> set (butlast l)"
  shows "10 \<notin> set (rstrip_nl l)"
proof -
  obtain k where k: "l = rstrip_nl l @ replicate k 10" using rstrip_nl_decomp by blast
  show ?thesis
  proof (cases k)
    case 0
    with k have e: "rstrip_nl l = l" by simp
    show ?thesis
    proof (cases "l = []")
      case True
      with e show ?thesis by simp
    next
      case False
      with e rstrip_nl_no_trailing [of l] have "last l \<noteq> 10" by simp
      moreover have "set l = set (butlast l) \<union> {last l}"
        using False by (metis Un_insert_right append_butlast_last_id list.set(1,2) set_append sup_bot.right_neutral)
      ultimately show ?thesis using assms e by auto
    qed
  next
    case (Suc j)
    then have "replicate k 10 = replicate j 10 @ [10::nat]" by (simp add: replicate_append_same)
    with k have "l = (rstrip_nl l @ replicate j 10) @ [10]" by simp
    then have "butlast l = rstrip_nl l @ replicate j 10" by (metis butlast_snoc)
    with assms show ?thesis by auto
  qed
qed

lemma fix_row_body_prefix: "\<exists>rest. l = join [9] (take n (split 9 (rstrip_nl l))) @ rest"
proof -
  obtain r1 where "join [9] (split 9 (rstrip_nl l)) =
                     join [9] (take n (split 9 (rstrip_nl l))) @ r1"
    using join_take_prefix by blast
  then have a: "rstrip_nl l = join [9] (take n (split 9 (rstrip_nl l))) @ r1"
    by (simp add: join_split)
  obtain k where "l = rstrip_nl l @ replicate k 10" using rstrip_nl_decomp by blast
  with a have "l = join [9] (take n (split 9 (rstrip_nl l))) @ (r1 @ replicate k 10)"
    by (metis append_assoc)
  then show ?thesis by blast
qed

lemma fix_row_idempotent:
  assumes "10 \<notin> set (butlast l)"
  shows "fix_row n (fix_row n l) = fix_row n l"
proof -
  let ?fs = "take n (split 9 (rstrip_nl l))"
  let ?b = "join [9] ?fs"
  have r: "fix_row n l = ?b @ [10]" by (rule fix_row_eq)
  obtain r1 where "join [9] (split 9 (rstrip_nl l)) = ?b @ r1"
    using join_take_prefix by blast
  then have "rstrip_nl l = ?b @ r1" by (simp add: join_split)
  then have "set ?b \<subseteq> set (rstrip_nl l)" by (metis set_append sup_ge1)
  then have nonl: "10 \<notin> set ?b" using row_without_nl [OF assms] by blast
  then have "rstrip_nl ?b = ?b" by (intro rstrip_nl_id) (metis last_in_set)
  then have row: "rstrip_nl (?b @ [10]) = ?b" by (simp add: rstrip_nl_snoc)
  show ?thesis
  proof (cases "?fs = []")
    case True
    then have "?b = []" by simp
    with r have "fix_row n l = [10]" by simp
    moreover have "fix_row n [10] = [10]"
    proof -
      from True have "n = 0" by (cases n) (simp_all add: take_Suc)
      then show ?thesis by (simp add: fix_row_eq)
    qed
    ultimately show ?thesis by simp
  next
    case False
    have "\<forall>f\<in>set ?fs. 9 \<notin> set f"
      using split_no_sep by (meson in_set_takeD)
    then have "split 9 ?b = ?fs" using False by (intro split_join) auto
    then have "fix_row n (?b @ [10]) = join [9] (take n ?fs) @ [10]"
      by (simp add: fix_row_eq row)
    then show ?thesis using r by simp
  qed
qed

section \<open>Headers and what is written for them\<close>

lemma header_groups_last:
  assumes "header_groups p t s oc suf"
  shows "suf \<noteq> [] \<and> last suf = 59"
proof -
  from assms obtain ws2 kw2 ws3 kw3 where
    "suf = ws2 @ kw2 @ ws3 @ kw3" "list_all2 ci_eq (str ''stdin;'') kw3"
    unfolding header_groups_def by blast
  then show ?thesis using kw_stdin_last [of kw3] by simp
qed

lemma header_groups_cols:
  assumes "header_groups p t s oc suf" and "41 \<notin> set cols"
  shows "header_groups p t s cols suf"
  using assms unfolding header_groups_def by blast

lemma header_of_rewritten:
  assumes "copy_header_pattern l = Some (p, t, s, oc, suf)" and "41 \<notin> set cols"
  shows "copy_header_pattern (p @ t @ s @ [40] @ cols @ [41] @ suf @ rest) =
           Some (p, t, s, cols, suf)"
  using header_complete [OF header_groups_cols [OF _ assms(2)]] header_sound [OF assms(1)]
  by blast

lemma header_matched_text:
  assumes "copy_header_pattern l = Some (p, t, s, oc, suf)"
  shows "\<exists>rest. l = (p @ t @ s @ [40] @ oc @ [41] @ suf) @ rest \<and>
           last (p @ t @ s @ [40] @ oc @ [41] @ suf) = 59 \<and>
           (\<forall>rest'. copy_header_pattern ((p @ t @ s @ [40] @ oc @ [41] @ suf) @ rest') =
                      Some (p, t, s, oc, suf))"
proof -
  from header_sound [OF assms] obtain rest where
    g: "header_groups p t s oc suf" and l: "l = p @ t @ s @ [40] @ oc @ [41] @ suf @ rest"
    by blast
  have "last (p @ t @ s @ [40] @ oc @ [41] @ suf) = 59"
    using header_groups_last [OF g] by simp
  moreover have "copy_header_pattern ((p @ t @ s @ [40] @ oc @ [41] @ suf) @ rest') =
                      Some (p, t, s, oc, suf)" for rest'
    using header_complete [OF g, of rest'] by simp
  ultimately show ?thesis using l by auto
qed

lemma fix_row_not_header:
  assumes "copy_header_pattern l = None"
  shows "copy_header_pattern (fix_row n l) = None"
proof (rule ccontr)
  assume "copy_header_pattern (fix_row n l) \<noteq> None"
  then obtain p t s oc suf where h: "copy_header_pattern (fix_row n l) = Some (p, t, s, oc, suf)"
    by (cases "copy_header_pattern (fix_row n l)") auto
  let ?m = "p @ t @ s @ [40] @ oc @ [41] @ suf"
  let ?b = "join [9] (take n (split 9 (rstrip_nl l)))"
  from header_matched_text [OF h] obtain rest where
    m: "fix_row n l = ?m @ rest" "last ?m = 59"
    and c: "\<forall>rest'. copy_header_pattern (?m @ rest') = Some (p, t, s, oc, suf)"
    by blast
  have r: "fix_row n l = ?b @ [10]" by (rule fix_row_eq)
  obtain rl where l: "l = ?b @ rl" using fix_row_body_prefix by blast
  have "rest \<noteq> []"
  proof
    assume "rest = []"
    with m r have "?m = ?b @ [10]" by simp
    then have "last ?m = 10" by (metis last_snoc)
    with m show False by simp
  qed
  then obtain y z where yz: "rest = y @ [z]" by (metis rev_exhaust)
  with m r have "(?m @ y) @ [z] = ?b @ [10]" by simp
  then have "?m @ y = ?b" by (metis butlast_snoc)
  with l have "l = ?m @ (y @ rl)" by (metis append_assoc)
  with c have "copy_header_pattern l = Some (p, t, s, oc, suf)" by metis
  with assms show False by simp
qed

lemma header_text_without_nl:
  assumes "copy_header_pattern l = Some (p, t, s, oc, suf)" and "10 \<notin> set (butlast l)"
  shows "10 \<notin> set (p @ t @ s @ [40] @ oc @ [41] @ suf)"
proof -
  let ?m = "p @ t @ s @ [40] @ oc @ [41] @ suf"
  from header_matched_text [OF assms(1)] obtain rest where
    m: "l = ?m @ rest" "last ?m = 59" by blast
  have ne: "?m \<noteq> []" by simp
  show ?thesis
  proof (cases "rest = []")
    case True
    have "set ?m = set (butlast ?m) \<union> {last ?m}"
      using ne by (metis Un_insert_right append_butlast_last_id list.set(1,2) set_append
          sup_bot.right_neutral)
    moreover have "butlast l = butlast ?m" using True m by simp
    ultimately show ?thesis using assms(2) m(2) by auto
  next
    case False
    then have "butlast l = ?m @ butlast rest" using m by (simp add: butlast_append)
    with assms(2) show ?thesis by auto
  qed
qed

section \<open>One line, written and read again\<close>

lemma joined_columns:
  assumes "\<forall>t. \<forall>c\<in>set (r t). 41 \<notin> set c \<and> 10 \<notin> set c \<and> 13 \<notin> set c"
  shows "41 \<notin> set (join (str '', '') (r t)) \<and> 10 \<notin> set (join (str '', '') (r t)) \<and>
         13 \<notin> set (join (str '', '') (r t))"
proof -
  have "set (join (str '', '') (r t)) \<subseteq> set (str '', '') \<union> \<Union> (set ` set (r t))"
    by (rule set_join)
  moreover have "set (str '', '') = {44, 32}" by (simp add: str_def)
  ultimately show ?thesis using assms by fastforce
qed

lemma fix_row_body_in_row:
  "\<exists>rest. rstrip_nl l = join [9] (take n (split 9 (rstrip_nl l))) @ rest"
  using join_take_prefix [of 9 "split 9 (rstrip_nl l)" n] by (simp add: join_split)

lemma fix_row_line_ok:
  assumes "line_ok l"
  shows "line_ok (fix_row n l)"
proof -
  let ?b = "join [9] (take n (split 9 (rstrip_nl l)))"
  obtain r1 where "rstrip_nl l = ?b @ r1" using fix_row_body_in_row by blast
  then have "set ?b \<subseteq> set (rstrip_nl l)" by (metis set_append sup_ge1)
  moreover have "10 \<notin> set (rstrip_nl l)"
    using assms row_without_nl by (simp add: line_ok_def)
  ultimately have a: "10 \<notin> set ?b" by blast
  obtain rl where "l = ?b @ rl" using fix_row_body_prefix by blast
  then have "set ?b \<subseteq> set l" by (metis set_append sup_ge1)
  then have b: "13 \<notin> set ?b" using assms by (auto simp: line_ok_def)
  show ?thesis using a b by (simp add: fix_row_eq line_ok_def)
qed

lemma header_line_ok:
  assumes "line_ok l" and "copy_header_pattern l = Some (p, t, s, oc, suf)"
    and "10 \<notin> set cols" and "13 \<notin> set cols"
  shows "line_ok (p @ t @ s @ str ''('' @ cols @ str '')'' @ suf @ [10])"
proof -
  have par: "str ''('' = [40]" "str '')'' = [41]" by (simp_all add: str_def)
  have a: "10 \<notin> set (p @ t @ s @ [40] @ oc @ [41] @ suf)"
    using header_text_without_nl [OF assms(2)] assms(1) by (simp add: line_ok_def)
  obtain rest where "l = (p @ t @ s @ [40] @ oc @ [41] @ suf) @ rest"
    using header_matched_text [OF assms(2)] by blast
  then have "set (p @ t @ s @ [40] @ oc @ [41] @ suf) \<subseteq> set l" by (metis set_append sup_ge1)
  then have b: "13 \<notin> set (p @ t @ s @ [40] @ oc @ [41] @ suf)"
    using assms(1) by (auto simp: line_ok_def)
  have "butlast (p @ t @ s @ [40] @ cols @ [41] @ suf @ [10]) =
          p @ t @ s @ [40] @ cols @ [41] @ suf"
    by (simp add: butlast_append)
  then show ?thesis using a b assms(3,4) unfolding par line_ok_def by auto
qed

lemma main_step_cases:
  "(\<exists>p t s oc suf. copy_header_pattern l = Some (p, t, s, oc, suf) \<and> r t \<noteq> [] \<and>
      main_step r st l =
        (p @ t @ s @ str ''('' @ join (str '', '') (r t) @ str '')'' @ suf @ [10],
         \<lparr>in_copy_block = True, expected_col_count = Some (length (r t)),
          current_table = Some t\<rparr>)) \<or>
   (\<exists>p t s oc suf. copy_header_pattern l = Some (p, t, s, oc, suf) \<and> r t = [] \<and>
      main_step r st l =
        (l, \<lparr>in_copy_block = True, expected_col_count = None, current_table = Some t\<rparr>)) \<or>
   (copy_header_pattern l = None \<and> in_copy_block st \<and> strip l = [92, 46] \<and>
      main_step r st l =
        (l, \<lparr>in_copy_block = False, expected_col_count = Some 0, current_table = None\<rparr>)) \<or>
   (\<exists>n. copy_header_pattern l = None \<and> in_copy_block st \<and> strip l \<noteq> [92, 46] \<and>
      expected_col_count st = Some n \<and> main_step r st l = (fix_row n l, st)) \<or>
   (copy_header_pattern l = None \<and> in_copy_block st \<and> strip l \<noteq> [92, 46] \<and>
      expected_col_count st = None \<and> main_step r st l = (l, st)) \<or>
   (copy_header_pattern l = None \<and> \<not> in_copy_block st \<and> main_step r st l = (l, st))"
proof (cases "copy_header_pattern l")
  case None
  then show ?thesis by (cases "expected_col_count st") (auto simp: main_step_def)
next
  case (Some g)
  obtain p t s oc suf where "g = (p, t, s, oc, suf)" by (cases g) auto
  with Some show ?thesis by (cases "r t = []") (auto simp: main_step_def Let_def)
qed

lemma main_step_line_ok:
  assumes "line_ok l"
    and "\<forall>t. \<forall>c\<in>set (r t). 41 \<notin> set c \<and> 10 \<notin> set c \<and> 13 \<notin> set c"
  shows "line_ok (fst (main_step r st l))"
  using main_step_cases [of l r st] joined_columns [OF assms(2)]
    header_line_ok [OF assms(1)] fix_row_line_ok [OF assms(1)] assms(1)
  by (elim disjE exE conjE) auto

lemma main_step_keeps_nl:
  assumes "last l = 10"
  shows "last (fst (main_step r st l)) = 10"
  using main_step_cases [of l r st] assms
  by (elim disjE exE conjE) (auto simp: fix_row_eq)

lemma main_step_header_any_state:
  assumes "copy_header_pattern l = Some g"
  shows "main_step r st l = main_step r st' l"
  using assms by (simp add: main_step_def)

lemma main_step_again:
  assumes "10 \<notin> set (butlast l)"
    and "\<forall>t. \<forall>c\<in>set (r t). 41 \<notin> set c \<and> 10 \<notin> set c \<and> 13 \<notin> set c"
    and "s2 = s1 \<or> \<not> in_copy_block s2"
  shows "fst (main_step r s2 (fst (main_step r s1 l))) = fst (main_step r s1 l) \<and>
         (snd (main_step r s2 (fst (main_step r s1 l))) = snd (main_step r s1 l) \<or>
          \<not> in_copy_block (snd (main_step r s2 (fst (main_step r s1 l)))))"
proof -
  let ?o = "fst (main_step r s1 l)"
  have par: "str ''('' = [40]" "str '')'' = [41]" by (simp_all add: str_def)
  consider
    (rewrite) p t s oc suf where "copy_header_pattern l = Some (p, t, s, oc, suf)" "r t \<noteq> []"
      "main_step r s1 l =
        (p @ t @ s @ str ''('' @ join (str '', '') (r t) @ str '')'' @ suf @ [10],
         \<lparr>in_copy_block = True, expected_col_count = Some (length (r t)),
          current_table = Some t\<rparr>)"
    | (unknown) p t s oc suf where "copy_header_pattern l = Some (p, t, s, oc, suf)" "r t = []"
      "main_step r s1 l =
        (l, \<lparr>in_copy_block = True, expected_col_count = None, current_table = Some t\<rparr>)"
    | (closes) "copy_header_pattern l = None" "in_copy_block s1" "strip l = [92, 46]"
      "main_step r s1 l =
        (l, \<lparr>in_copy_block = False, expected_col_count = Some 0, current_table = None\<rparr>)"
    | (row) n where "copy_header_pattern l = None" "in_copy_block s1" "strip l \<noteq> [92, 46]"
      "expected_col_count s1 = Some n" "main_step r s1 l = (fix_row n l, s1)"
    | (pass) "copy_header_pattern l = None" "main_step r s1 l = (l, s1)"
    using main_step_cases [of l r s1] by (elim disjE exE conjE) blast+
  then show ?thesis
  proof cases
    case rewrite
    have "41 \<notin> set (join (str '', '') (r t))" using joined_columns [OF assms(2)] by blast
    from header_of_rewritten [OF rewrite(1) this, of "[10]"]
    have "copy_header_pattern ?o = Some (p, t, s, join (str '', '') (r t), suf)"
      using rewrite(3) by (simp add: par)
    then have "main_step r s2 ?o = main_step r s1 l"
      using rewrite(2,3) by (simp add: main_step_def Let_def)
    then show ?thesis by simp
  next
    case unknown
    then have "main_step r s2 ?o = main_step r s1 l" by (simp add: main_step_def)
    then show ?thesis by simp
  next
    case closes
    then show ?thesis using assms(3) by (auto simp: main_step_def)
  next
    case row
    have h: "copy_header_pattern (fix_row n l) = None"
      using row(1) by (rule fix_row_not_header)
    have i: "fix_row n (fix_row n l) = fix_row n l"
      using assms(1) by (rule fix_row_idempotent)
    show ?thesis using assms(3) row h i by (auto simp: main_step_def)
  next
    case pass
    then show ?thesis using assms(3) by (auto simp: main_step_def split: option.splits)
  qed
qed

section \<open>Reading a text that was written line by line\<close>

lemma universal_newlines_id: "13 \<notin> set s \<Longrightarrow> universal_newlines s = s"
  by (induction s rule: universal_newlines.induct) auto

lemma universal_newlines_no_cr: "13 \<notin> set (universal_newlines s)"
  by (induction s rule: universal_newlines.induct) auto

lemma concat_file_lines: "concat (file_lines s) = s"
proof (induction s)
  case Nil
  show ?case by simp
next
  case (Cons c cs)
  then show ?case by (cases "file_lines cs") auto
qed

lemma file_lines_Nil_iff: "file_lines s = [] \<longleftrightarrow> s = []"
  by (cases s) (auto split: list.splits)

lemma line_ok_Cons: "line_ok l \<Longrightarrow> c \<noteq> 10 \<Longrightarrow> c \<noteq> 13 \<Longrightarrow> line_ok (c # l)"
  by (auto simp: line_ok_def)

lemma lines_ok_Cons:
  "lines_ok (l # ls) \<longleftrightarrow> line_ok l \<and> (ls \<noteq> [] \<longrightarrow> last l = 10) \<and> lines_ok ls"
  by (auto simp: lines_ok_def)

lemma file_lines_ok: "13 \<notin> set s \<Longrightarrow> lines_ok (file_lines s)"
proof (induction s)
  case Nil
  show ?case by (simp add: lines_ok_def)
next
  case (Cons c cs)
  then have ih: "lines_ok (file_lines cs)" and c: "c \<noteq> 13" by auto
  show ?case
  proof (cases "c = 10")
    case True
    then show ?thesis using ih by (simp add: lines_ok_Cons line_ok_def)
  next
    case False
    show ?thesis
    proof (cases "file_lines cs")
      case Nil
      then show ?thesis using False c by (simp add: lines_ok_def line_ok_def)
    next
      case (Cons l ls)
      with ih have "line_ok l" "ls \<noteq> [] \<longrightarrow> last l = 10" "lines_ok ls"
        by (simp_all add: lines_ok_Cons)
      moreover have "l \<noteq> []" using \<open>line_ok l\<close> by (simp add: line_ok_def)
      ultimately show ?thesis using False c Cons
        by (simp add: lines_ok_Cons line_ok_Cons)
    qed
  qed
qed

lemma file_lines_terminated:
  "10 \<notin> set b \<Longrightarrow> file_lines (b @ 10 # rest) = (b @ [10]) # file_lines rest"
  by (induction b) auto

lemma file_lines_last_line:
  "l \<noteq> [] \<Longrightarrow> 10 \<notin> set l \<Longrightarrow> file_lines l = [l]"
proof (induction l)
  case Nil
  then show ?case by simp
next
  case (Cons c cs)
  show ?case
  proof (cases "cs = []")
    case True
    with Cons.prems show ?thesis by simp
  next
    case False
    with Cons have "file_lines cs = [cs]" by simp
    with Cons.prems show ?thesis by simp
  qed
qed

lemma file_lines_single:
  assumes "l \<noteq> []" and "10 \<notin> set (butlast l)"
  shows "file_lines l = [l]"
proof (cases "last l = 10")
  case True
  with assms(1) have "l = butlast l @ 10 # []" by (metis append_butlast_last_id)
  moreover have "file_lines (butlast l @ 10 # []) = (butlast l @ [10]) # file_lines []"
    using assms(2) by (rule file_lines_terminated)
  ultimately show ?thesis by simp
next
  case False
  have "set l = set (butlast l) \<union> {last l}"
    using assms(1) by (metis Un_insert_right append_butlast_last_id list.set(1,2) set_append
        sup_bot.right_neutral)
  with False assms(2) have "10 \<notin> set l" by auto
  with assms(1) show ?thesis by (rule file_lines_last_line)
qed

lemma file_lines_concat: "lines_ok ls \<Longrightarrow> file_lines (concat ls) = ls"
proof (induction ls)
  case Nil
  show ?case by simp
next
  case (Cons l ls)
  then have l: "line_ok l" and nl: "ls \<noteq> [] \<longrightarrow> last l = 10" and ih: "file_lines (concat ls) = ls"
    by (simp_all add: lines_ok_Cons)
  from l have ne: "l \<noteq> []" and b: "10 \<notin> set (butlast l)" by (simp_all add: line_ok_def)
  show ?case
  proof (cases "ls = []")
    case True
    then show ?thesis using file_lines_single [OF ne b] by simp
  next
    case False
    define b where "b = butlast l"
    have lb: "l = b @ [10]" using False nl ne unfolding b_def by (metis append_butlast_last_id)
    have nb: "10 \<notin> set b" using b unfolding b_def .
    have "concat (l # ls) = b @ 10 # concat ls" using lb by simp
    then have "file_lines (concat (l # ls)) = (b @ [10]) # file_lines (concat ls)"
      using file_lines_terminated [OF nb, of "concat ls"] by simp
    then show ?thesis using ih lb by simp
  qed
qed

section \<open>The whole pass, run twice\<close>

lemma main_loop_length: "length (fst (main_loop r st ls)) = length ls"
  by (induction ls arbitrary: st) (simp_all add: main_loop_Cons del: main_loop.simps(2))

lemma main_loop_lines_ok:
  assumes "lines_ok ls"
    and "\<forall>t. \<forall>c\<in>set (r t). 41 \<notin> set c \<and> 10 \<notin> set c \<and> 13 \<notin> set c"
  shows "lines_ok (fst (main_loop r st ls))"
  using assms(1)
proof (induction ls arbitrary: st)
  case Nil
  show ?case by (simp add: lines_ok_def)
next
  case (Cons l ls)
  then have l: "line_ok l" and nl: "ls \<noteq> [] \<longrightarrow> last l = 10" and ls: "lines_ok ls"
    by (simp_all add: lines_ok_Cons)
  let ?outs = "fst (main_loop r (snd (main_step r st l)) ls)"
  have a: "line_ok (fst (main_step r st l))" using l assms(2) by (rule main_step_line_ok)
  have b: "?outs \<noteq> [] \<longrightarrow> last (fst (main_step r st l)) = 10"
  proof
    assume "?outs \<noteq> []"
    then have "ls \<noteq> []" using main_loop_length [of r "snd (main_step r st l)" ls] by auto
    with nl show "last (fst (main_step r st l)) = 10" by (simp add: main_step_keeps_nl)
  qed
  have c: "lines_ok ?outs" using Cons.IH [OF ls] .
  show ?case using a b c by (simp add: main_loop_Cons lines_ok_Cons del: main_loop.simps)
qed

lemma main_loop_again:
  assumes "list_all line_ok ls"
    and "\<forall>t. \<forall>c\<in>set (r t). 41 \<notin> set c \<and> 10 \<notin> set c \<and> 13 \<notin> set c"
    and "s2 = s1 \<or> \<not> in_copy_block s2"
  shows "fst (main_loop r s2 (fst (main_loop r s1 ls))) = fst (main_loop r s1 ls)"
  using assms(1,3)
proof (induction ls arbitrary: s1 s2)
  case Nil
  show ?case by simp
next
  case (Cons l ls)
  from Cons.prems(1) have lo: "line_ok l" and ls: "list_all line_ok ls" by simp_all
  from lo have l: "10 \<notin> set (butlast l)" by (simp add: line_ok_def)
  let ?o = "fst (main_step r s1 l)"
  from main_step_again [OF l assms(2) Cons.prems(2)]
  have o: "fst (main_step r s2 ?o) = ?o"
    and s: "snd (main_step r s2 ?o) = snd (main_step r s1 l) \<or>
            \<not> in_copy_block (snd (main_step r s2 ?o))"
    by blast+
  have "fst (main_loop r (snd (main_step r s2 ?o))
                (fst (main_loop r (snd (main_step r s1 l)) ls))) =
        fst (main_loop r (snd (main_step r s1 l)) ls)"
    using Cons.IH [OF ls s] .
  then show ?case using o by (simp add: main_loop_Cons del: main_loop.simps)
qed

text \<open>
  Claim C9, as amended. For a resolver none of whose column names contains a closing
  parenthesis, a line feed or a carriage return, the pass is idempotent: the output text,
  given to the pass again with the same resolver, comes out unchanged.
\<close>

theorem main_idempotent:
  assumes "\<forall>t. \<forall>c\<in>set (r t). 41 \<notin> set c \<and> 10 \<notin> set c \<and> 13 \<notin> set c"
  shows "main r (main r text) = main r text"
proof -
  let ?ls = "file_lines (universal_newlines text)"
  let ?outs = "fst (main_loop r initial_state ?ls)"
  have ls: "lines_ok ?ls" using universal_newlines_no_cr by (rule file_lines_ok)
  then have ok: "lines_ok ?outs" using assms by (rule main_loop_lines_ok)
  then have "\<forall>l\<in>set ?outs. 13 \<notin> set l" by (auto simp: lines_ok_def line_ok_def list_all_iff)
  then have "13 \<notin> set (concat ?outs)" by auto
  then have "universal_newlines (concat ?outs) = concat ?outs" by (rule universal_newlines_id)
  moreover have "file_lines (concat ?outs) = ?outs" using ok by (rule file_lines_concat)
  moreover have "fst (main_loop r initial_state ?outs) = ?outs"
  proof (rule main_loop_again [OF _ assms])
    show "list_all line_ok ?ls" using ls by (simp add: lines_ok_def)
    show "initial_state = initial_state \<or> \<not> in_copy_block initial_state" by simp
  qed
  ultimately show ?thesis by (simp add: main_def)
qed

lemmas eval_main =
  main_def main_step_def initial_state_def strip_def lstrip_def rstrip_def eval_header

theorem main_idempotent_witness:
  "main schema_abc
     (str ''COPY public.t (a, b) FROM stdin;'' @ [10] @ [49, 9, 50, 9, 51, 9, 10] @
      [92, 46, 10]) =
     str ''COPY public.t (a, b, c) FROM stdin;'' @ [10] @ [49, 9, 50, 9, 51, 10] @
     [92, 46, 10] \<and>
   main schema_abc
     (main schema_abc
        (str ''COPY public.t (a, b) FROM stdin;'' @ [10] @ [49, 9, 50, 9, 51, 9, 10] @
         [92, 46, 10])) =
     main schema_abc
       (str ''COPY public.t (a, b) FROM stdin;'' @ [10] @ [49, 9, 50, 9, 51, 9, 10] @
        [92, 46, 10])"
proof -
  have c: "\<forall>t. \<forall>c\<in>set (schema_abc t). 41 \<notin> set c \<and> 10 \<notin> set c \<and> 13 \<notin> set c"
    by (simp add: schema_abc_def str_def)
  have v: "main schema_abc
     (str ''COPY public.t (a, b) FROM stdin;'' @ [10] @ [49, 9, 50, 9, 51, 9, 10] @
      [92, 46, 10]) =
     str ''COPY public.t (a, b, c) FROM stdin;'' @ [10] @ [49, 9, 50, 9, 51, 10] @
     [92, 46, 10]"
    by (simp add: eval_main eval_long_row schema_abc_def del: split.simps(2))
  show ?thesis
    using v main_idempotent [OF c,
      of "str ''COPY public.t (a, b) FROM stdin;'' @ [10] @ [49, 9, 50, 9, 51, 9, 10] @
          [92, 46, 10]"]
    by (intro conjI)
qed

text \<open>
  The claim as first stated holds for every resolver. It fails when a column name contains
  a closing parenthesis: the rewritten header then no longer matches the pattern, whose
  column group stops at the first closing parenthesis. Here the header of table \<open>b\<close>
  follows the header of table \<open>a\<close> with no terminator in between, and its keyword is
  followed by a tab. The first pass rewrites it as a header; the second pass does not
  recognise the rewritten line, takes it as a data row of the block of \<open>a\<close> (one column)
  and cuts it at the tab.
\<close>

theorem main_idempotent_counterexample:
  "main schema_paren
     (str ''COPY a (k) FROM stdin;'' @ [10] @
      str ''COPY'' @ [9] @ str ''b (y) FROM stdin;'' @ [10]) =
     str ''COPY a (k) FROM stdin;'' @ [10] @
     str ''COPY'' @ [9] @ str ''b ('' @ [34, 120, 41, 34] @ str '') FROM stdin;'' @ [10] \<and>
   main schema_paren
     (str ''COPY a (k) FROM stdin;'' @ [10] @
      str ''COPY'' @ [9] @ str ''b ('' @ [34, 120, 41, 34] @ str '') FROM stdin;'' @ [10]) =
     str ''COPY a (k) FROM stdin;'' @ [10] @ str ''COPY'' @ [10] \<and>
   main schema_paren
     (main schema_paren
        (str ''COPY a (k) FROM stdin;'' @ [10] @
         str ''COPY'' @ [9] @ str ''b (y) FROM stdin;'' @ [10])) \<noteq>
   main schema_paren
     (str ''COPY a (k) FROM stdin;'' @ [10] @
      str ''COPY'' @ [9] @ str ''b (y) FROM stdin;'' @ [10])"
proof -
  have a: "main schema_paren
     (str ''COPY a (k) FROM stdin;'' @ [10] @
      str ''COPY'' @ [9] @ str ''b (y) FROM stdin;'' @ [10]) =
     str ''COPY a (k) FROM stdin;'' @ [10] @
     str ''COPY'' @ [9] @ str ''b ('' @ [34, 120, 41, 34] @ str '') FROM stdin;'' @ [10]"
    by (simp add: eval_main schema_paren_def)
  have b: "main schema_paren
     (str ''COPY a (k) FROM stdin;'' @ [10] @
      str ''COPY'' @ [9] @ str ''b ('' @ [34, 120, 41, 34] @ str '') FROM stdin;'' @ [10]) =
     str ''COPY a (k) FROM stdin;'' @ [10] @ str ''COPY'' @ [10]"
    by (simp add: eval_main eval_long_row schema_paren_def del: split.simps(2))
  have c: "main schema_paren
     (main schema_paren
        (str ''COPY a (k) FROM stdin;'' @ [10] @
         str ''COPY'' @ [9] @ str ''b (y) FROM stdin;'' @ [10])) \<noteq>
   main schema_paren
     (str ''COPY a (k) FROM stdin;'' @ [10] @
      str ''COPY'' @ [9] @ str ''b (y) FROM stdin;'' @ [10])"
    unfolding a unfolding b by (simp add: str_def)
  show ?thesis using a b c by (intro conjI)
qed

section \<open>Rows of an open block that the header pattern matches\<close>

text \<open>
  The comment at line 147 of the script says that inside a block data rows follow until
  the terminator, and the third item of its docstring says that the rows of a block are
  only ever trimmed of extra fields. The loop nevertheless tries the header pattern on
  every line (line 122) before it looks at \<open>in_copy_block\<close> (line 146): no guard keeps
  the header test away from the rows of an open block. In the text format of a dump
  blanks, parentheses and semicolons of a value are written as they are, so a row whose
  first column holds a text that begins like a COPY statement is a row the script can
  meet. The theorems of this section run the loop on such rows. They all show the same
  missing guard.
\<close>

lemmas eval_strip = strip_def lstrip_def rstrip_def str_def isspace_def

text \<open>
  Claim C2. While a block is open, a line that is not the terminator is to be handled by
  the inside-block rules and is never to re-enter header recognition, so that no second
  block opens before the terminator. The code does otherwise on the dump below: table
  \<open>a\<close> has one column, and its only row holds the text \<^verbatim>\<open>COPY b (y) FROM stdin;\<close>.
  The data-row rule for one column would write that row as it is, and the output would be
  the input. The loop takes the row for a header, writes the columns of table \<open>b\<close> into
  it, and opens the block of \<open>b\<close> with count 2 while the block of \<open>a\<close> has not met
  its terminator.
\<close>

theorem header_recognised_inside_block:
  "snd (main_loop schema_two_tables initial_state [str ''COPY a (k) FROM stdin;'' @ [10]]) =
     \<lparr>in_copy_block = True, expected_col_count = Some 1, current_table = Some (str ''a'')\<rparr> \<and>
   strip (str ''COPY b (y) FROM stdin;'' @ [10]) \<noteq> [92, 46] \<and>
   fix_row 1 (str ''COPY b (y) FROM stdin;'' @ [10]) = str ''COPY b (y) FROM stdin;'' @ [10] \<and>
   main_step schema_two_tables
     \<lparr>in_copy_block = True, expected_col_count = Some 1, current_table = Some (str ''a'')\<rparr>
     (str ''COPY b (y) FROM stdin;'' @ [10]) =
     (str ''COPY b (p, q) FROM stdin;'' @ [10],
      \<lparr>in_copy_block = True, expected_col_count = Some 2, current_table = Some (str ''b'')\<rparr>) \<and>
   main schema_two_tables
     (str ''COPY a (k) FROM stdin;'' @ [10] @ str ''COPY b (y) FROM stdin;'' @ [10] @
      [92, 46, 10]) =
     str ''COPY a (k) FROM stdin;'' @ [10] @ str ''COPY b (p, q) FROM stdin;'' @ [10] @
     [92, 46, 10] \<and>
   main schema_two_tables
     (str ''COPY a (k) FROM stdin;'' @ [10] @ str ''COPY b (y) FROM stdin;'' @ [10] @
      [92, 46, 10]) \<noteq>
     str ''COPY a (k) FROM stdin;'' @ [10] @ str ''COPY b (y) FROM stdin;'' @ [10] @
     [92, 46, 10]"
proof -
  have a: "snd (main_loop schema_two_tables initial_state
                 [str ''COPY a (k) FROM stdin;'' @ [10]]) =
     \<lparr>in_copy_block = True, expected_col_count = Some 1, current_table = Some (str ''a'')\<rparr>"
    by (simp add: main_step_def initial_state_def schema_two_tables_def eval_header)
  have b: "strip (str ''COPY b (y) FROM stdin;'' @ [10]) \<noteq> [92, 46]"
    by (simp add: eval_strip)
  have c: "fix_row 1 (str ''COPY b (y) FROM stdin;'' @ [10]) =
             str ''COPY b (y) FROM stdin;'' @ [10]"
    by (simp add: eval_long_row str_def del: split.simps(2))
  have d: "main_step schema_two_tables
     \<lparr>in_copy_block = True, expected_col_count = Some 1, current_table = Some (str ''a'')\<rparr>
     (str ''COPY b (y) FROM stdin;'' @ [10]) =
     (str ''COPY b (p, q) FROM stdin;'' @ [10],
      \<lparr>in_copy_block = True, expected_col_count = Some 2, current_table = Some (str ''b'')\<rparr>)"
    by (simp add: main_step_def schema_two_tables_def eval_header)
  have e: "main schema_two_tables
     (str ''COPY a (k) FROM stdin;'' @ [10] @ str ''COPY b (y) FROM stdin;'' @ [10] @
      [92, 46, 10]) =
     str ''COPY a (k) FROM stdin;'' @ [10] @ str ''COPY b (p, q) FROM stdin;'' @ [10] @
     [92, 46, 10]"
    by (simp add: eval_main schema_two_tables_def)
  have f: "main schema_two_tables
     (str ''COPY a (k) FROM stdin;'' @ [10] @ str ''COPY b (y) FROM stdin;'' @ [10] @
      [92, 46, 10]) \<noteq>
     str ''COPY a (k) FROM stdin;'' @ [10] @ str ''COPY b (y) FROM stdin;'' @ [10] @
     [92, 46, 10]"
    unfolding e by (simp add: str_def)
  show ?thesis by (intro conjI a b c d e f)
qed

text \<open>
  Claim C3. In a block with known expected count \<open>N\<close>, a data row that splits on tabs into
  exactly \<open>N + 1\<close> fields, the last of them empty, is to be written as its first \<open>N\<close>
  fields joined by tabs. The code does otherwise on the row below, which follows the header
  of table \<open>a\<close> (one target column): its first field is the text
  \<^verbatim>\<open>COPY b (y) FROM stdin;\<close> and its second field is empty. The row has \<open>1 + 1\<close>
  fields with an empty last one, and its first field is what the claim has written. The
  loop writes the rewritten header of table \<open>b\<close> instead and continues in the block of
  \<open>b\<close>. This is the missing guard of claim C2.
\<close>

theorem header_shaped_row_with_empty_last_field:
  "snd (main_loop schema_two_tables initial_state
          [str ''COPY a (k, old) FROM stdin;'' @ [10]]) =
     \<lparr>in_copy_block = True, expected_col_count = Some 1, current_table = Some (str ''a'')\<rparr> \<and>
   strip (str ''COPY b (y) FROM stdin;'' @ [9, 10]) \<noteq> [92, 46] \<and>
   length (split 9 (rstrip_nl (str ''COPY b (y) FROM stdin;'' @ [9, 10]))) = 1 + 1 \<and>
   last (split 9 (rstrip_nl (str ''COPY b (y) FROM stdin;'' @ [9, 10]))) = [] \<and>
   join [9] (take 1 (split 9 (rstrip_nl (str ''COPY b (y) FROM stdin;'' @ [9, 10])))) @ [10] =
     str ''COPY b (y) FROM stdin;'' @ [10] \<and>
   main_step schema_two_tables
     \<lparr>in_copy_block = True, expected_col_count = Some 1, current_table = Some (str ''a'')\<rparr>
     (str ''COPY b (y) FROM stdin;'' @ [9, 10]) =
     (str ''COPY b (p, q) FROM stdin;'' @ [10],
      \<lparr>in_copy_block = True, expected_col_count = Some 2, current_table = Some (str ''b'')\<rparr>) \<and>
   fst (main_step schema_two_tables
     \<lparr>in_copy_block = True, expected_col_count = Some 1, current_table = Some (str ''a'')\<rparr>
     (str ''COPY b (y) FROM stdin;'' @ [9, 10])) \<noteq>
     join [9] (take 1 (split 9 (rstrip_nl (str ''COPY b (y) FROM stdin;'' @ [9, 10])))) @ [10]"
proof -
  let ?l = "str ''COPY b (y) FROM stdin;'' @ [9, 10]"
  let ?a = "\<lparr>in_copy_block = True, expected_col_count = Some 1, current_table = Some (str ''a'')\<rparr>"
  have a: "snd (main_loop schema_two_tables initial_state
                 [str ''COPY a (k, old) FROM stdin;'' @ [10]]) = ?a"
    by (simp add: main_step_def initial_state_def schema_two_tables_def eval_header)
  have b: "strip ?l \<noteq> [92, 46]" by (simp add: eval_strip)
  have s: "split 9 (rstrip_nl ?l) = [str ''COPY b (y) FROM stdin;'', []]"
    by (simp add: rstrip_nl_def split_eval str_def del: split.simps(2))
  have c: "length (split 9 (rstrip_nl ?l)) = 1 + 1" unfolding s by simp
  have d: "last (split 9 (rstrip_nl ?l)) = []" unfolding s by simp
  have e: "join [9] (take 1 (split 9 (rstrip_nl ?l))) @ [10] =
             str ''COPY b (y) FROM stdin;'' @ [10]"
    unfolding s by simp
  have f: "main_step schema_two_tables ?a ?l =
     (str ''COPY b (p, q) FROM stdin;'' @ [10],
      \<lparr>in_copy_block = True, expected_col_count = Some 2, current_table = Some (str ''b'')\<rparr>)"
    by (simp add: main_step_def schema_two_tables_def eval_header)
  have g: "fst (main_step schema_two_tables ?a ?l) \<noteq>
             join [9] (take 1 (split 9 (rstrip_nl ?l))) @ [10]"
    unfolding e f by (simp add: str_def)
  show ?thesis by (intro conjI a b c d e f g)
qed

text \<open>
  Claim C4. In a block with known expected count \<open>N\<close>, a data row with more than
  \<open>N + 1\<close> tab-separated fields is to be written as its first \<open>N\<close> fields joined by tabs.
  The code does otherwise on the row below, which follows the header of table \<open>a\<close> (one
  target column): it has three fields, the first of them the text
  \<^verbatim>\<open>COPY b (y) FROM stdin;\<close>. The claim has that first field written. The loop writes
  the rewritten header of table \<open>b\<close> instead and continues in the block of \<open>b\<close>. This is
  the missing guard of claim C2.
\<close>

theorem header_shaped_row_with_extra_fields:
  "snd (main_loop schema_two_tables initial_state
          [str ''COPY a (k, m, n) FROM stdin;'' @ [10]]) =
     \<lparr>in_copy_block = True, expected_col_count = Some 1, current_table = Some (str ''a'')\<rparr> \<and>
   strip (str ''COPY b (y) FROM stdin;'' @ [9, 55, 9, 56, 10]) \<noteq> [92, 46] \<and>
   length (split 9 (rstrip_nl (str ''COPY b (y) FROM stdin;'' @ [9, 55, 9, 56, 10]))) > 1 + 1 \<and>
   join [9] (take 1
       (split 9 (rstrip_nl (str ''COPY b (y) FROM stdin;'' @ [9, 55, 9, 56, 10])))) @ [10] =
     str ''COPY b (y) FROM stdin;'' @ [10] \<and>
   main_step schema_two_tables
     \<lparr>in_copy_block = True, expected_col_count = Some 1, current_table = Some (str ''a'')\<rparr>
     (str ''COPY b (y) FROM stdin;'' @ [9, 55, 9, 56, 10]) =
     (str ''COPY b (p, q) FROM stdin;'' @ [10],
      \<lparr>in_copy_block = True, expected_col_count = Some 2, current_table = Some (str ''b'')\<rparr>) \<and>
   fst (main_step schema_two_tables
     \<lparr>in_copy_block = True, expected_col_count = Some 1, current_table = Some (str ''a'')\<rparr>
     (str ''COPY b (y) FROM stdin;'' @ [9, 55, 9, 56, 10])) \<noteq>
     join [9] (take 1
       (split 9 (rstrip_nl (str ''COPY b (y) FROM stdin;'' @ [9, 55, 9, 56, 10])))) @ [10]"
proof -
  let ?l = "str ''COPY b (y) FROM stdin;'' @ [9, 55, 9, 56, 10]"
  let ?a = "\<lparr>in_copy_block = True, expected_col_count = Some 1, current_table = Some (str ''a'')\<rparr>"
  have a: "snd (main_loop schema_two_tables initial_state
                 [str ''COPY a (k, m, n) FROM stdin;'' @ [10]]) = ?a"
    by (simp add: main_step_def initial_state_def schema_two_tables_def eval_header)
  have b: "strip ?l \<noteq> [92, 46]" by (simp add: eval_strip)
  have s: "split 9 (rstrip_nl ?l) = [str ''COPY b (y) FROM stdin;'', [55], [56]]"
    by (simp add: rstrip_nl_def split_eval str_def del: split.simps(2))
  have c: "length (split 9 (rstrip_nl ?l)) > 1 + 1" unfolding s by simp
  have e: "join [9] (take 1 (split 9 (rstrip_nl ?l))) @ [10] =
             str ''COPY b (y) FROM stdin;'' @ [10]"
    unfolding s by simp
  have f: "main_step schema_two_tables ?a ?l =
     (str ''COPY b (p, q) FROM stdin;'' @ [10],
      \<lparr>in_copy_block = True, expected_col_count = Some 2, current_table = Some (str ''b'')\<rparr>)"
    by (simp add: main_step_def schema_two_tables_def eval_header)
  have g: "fst (main_step schema_two_tables ?a ?l) \<noteq>
             join [9] (take 1 (split 9 (rstrip_nl ?l))) @ [10]"
    unfolding e f by (simp add: str_def)
  show ?thesis by (intro conjI a b c e f g)
qed

text \<open>
  Claim C5. In a block with known expected count \<open>N\<close>, a data row that splits into fewer
  than \<open>N\<close> tab-separated fields is to be written unchanged. The code does otherwise on
  the row below, which follows a header of table \<open>b\<close> (two target columns): it has the
  single field \<^verbatim>\<open>COPY a (z) FROM stdin;\<close>. The loop writes the rewritten header of table
  \<open>a\<close>, which differs from the row, and continues in the block of \<open>a\<close>. This is the
  missing guard of claim C2.
\<close>

theorem header_shaped_short_row:
  "snd (main_loop schema_two_tables initial_state [str ''COPY b (p) FROM stdin;'' @ [10]]) =
     \<lparr>in_copy_block = True, expected_col_count = Some 2, current_table = Some (str ''b'')\<rparr> \<and>
   strip (str ''COPY a (z) FROM stdin;'' @ [10]) \<noteq> [92, 46] \<and>
   length (split 9 (rstrip_nl (str ''COPY a (z) FROM stdin;'' @ [10]))) < 2 \<and>
   main_step schema_two_tables
     \<lparr>in_copy_block = True, expected_col_count = Some 2, current_table = Some (str ''b'')\<rparr>
     (str ''COPY a (z) FROM stdin;'' @ [10]) =
     (str ''COPY a (k) FROM stdin;'' @ [10],
      \<lparr>in_copy_block = True, expected_col_count = Some 1, current_table = Some (str ''a'')\<rparr>) \<and>
   fst (main_step schema_two_tables
     \<lparr>in_copy_block = True, expected_col_count = Some 2, current_table = Some (str ''b'')\<rparr>
     (str ''COPY a (z) FROM stdin;'' @ [10])) \<noteq>
     str ''COPY a (z) FROM stdin;'' @ [10]"
proof -
  let ?l = "str ''COPY a (z) FROM stdin;'' @ [10]"
  let ?b = "\<lparr>in_copy_block = True, expected_col_count = Some 2, current_table = Some (str ''b'')\<rparr>"
  have a: "snd (main_loop schema_two_tables initial_state
                 [str ''COPY b (p) FROM stdin;'' @ [10]]) = ?b"
    by (simp add: main_step_def initial_state_def schema_two_tables_def eval_header)
  have b: "strip ?l \<noteq> [92, 46]" by (simp add: eval_strip)
  have s: "split 9 (rstrip_nl ?l) = [str ''COPY a (z) FROM stdin;'']"
    by (simp add: rstrip_nl_def split_eval str_def del: split.simps(2))
  have c: "length (split 9 (rstrip_nl ?l)) < 2" unfolding s by simp
  have f: "main_step schema_two_tables ?b ?l =
     (str ''COPY a (k) FROM stdin;'' @ [10],
      \<lparr>in_copy_block = True, expected_col_count = Some 1, current_table = Some (str ''a'')\<rparr>)"
    by (simp add: main_step_def schema_two_tables_def eval_header)
  have g: "fst (main_step schema_two_tables ?b ?l) \<noteq> ?l"
    unfolding f by (simp add: str_def)
  show ?thesis by (intro conjI a b c f g)
qed

text \<open>
  Claim C6. When the resolver returns no columns for the table of a header, the header
  and every data row of that block are to be written as read. The code does otherwise on
  the dump below. The resolver does not know table \<open>other\<close>, so its header is written as
  read and the count is unknown. The first row of the block begins with the text
  \<^verbatim>\<open>COPY public.t (a, b) FROM stdin;\<close>; the loop takes it for a header of \<open>public.t\<close>,
  which the resolver knows with three columns, rewrites it and drops its second field.
  The next row of the block, with four fields, is then cut to three. The claim has the
  output equal to the input. This is the missing guard of claim C2.
\<close>

theorem header_shaped_row_in_unknown_block:
  "schema_abc (str ''other'') = [] \<and>
   main_loop schema_abc initial_state [str ''COPY other (x, y) FROM stdin;'' @ [10]] =
     ([str ''COPY other (x, y) FROM stdin;'' @ [10]],
      \<lparr>in_copy_block = True, expected_col_count = None,
       current_table = Some (str ''other'')\<rparr>) \<and>
   strip (str ''COPY public.t (a, b) FROM stdin;'' @ [9, 88, 10]) \<noteq> [92, 46] \<and>
   main_step schema_abc
     \<lparr>in_copy_block = True, expected_col_count = None, current_table = Some (str ''other'')\<rparr>
     (str ''COPY public.t (a, b) FROM stdin;'' @ [9, 88, 10]) =
     (str ''COPY public.t (a, b, c) FROM stdin;'' @ [10],
      \<lparr>in_copy_block = True, expected_col_count = Some 3,
       current_table = Some (str ''public.t'')\<rparr>) \<and>
   main schema_abc
     (str ''COPY other (x, y) FROM stdin;'' @ [10] @
      str ''COPY public.t (a, b) FROM stdin;'' @ [9, 88, 10] @
      [49, 9, 50, 9, 51, 9, 52, 10] @ [92, 46, 10]) =
     str ''COPY other (x, y) FROM stdin;'' @ [10] @
     str ''COPY public.t (a, b, c) FROM stdin;'' @ [10] @
     [49, 9, 50, 9, 51, 10] @ [92, 46, 10] \<and>
   main schema_abc
     (str ''COPY other (x, y) FROM stdin;'' @ [10] @
      str ''COPY public.t (a, b) FROM stdin;'' @ [9, 88, 10] @
      [49, 9, 50, 9, 51, 9, 52, 10] @ [92, 46, 10]) \<noteq>
     str ''COPY other (x, y) FROM stdin;'' @ [10] @
     str ''COPY public.t (a, b) FROM stdin;'' @ [9, 88, 10] @
     [49, 9, 50, 9, 51, 9, 52, 10] @ [92, 46, 10]"
proof -
  let ?u = "\<lparr>in_copy_block = True, expected_col_count = None,
              current_table = Some (str ''other'')\<rparr>"
  let ?l = "str ''COPY public.t (a, b) FROM stdin;'' @ [9, 88, 10]"
  let ?t = "str ''COPY other (x, y) FROM stdin;'' @ [10] @
      str ''COPY public.t (a, b) FROM stdin;'' @ [9, 88, 10] @
      [49, 9, 50, 9, 51, 9, 52, 10] @ [92, 46, 10]"
  have n: "schema_abc (str ''other'') = []" by (simp add: schema_abc_def str_def)
  have a: "main_loop schema_abc initial_state [str ''COPY other (x, y) FROM stdin;'' @ [10]] =
     ([str ''COPY other (x, y) FROM stdin;'' @ [10]], ?u)"
    by (simp add: main_step_def initial_state_def schema_abc_def eval_header)
  have b: "strip ?l \<noteq> [92, 46]" by (simp add: eval_strip)
  have f: "main_step schema_abc ?u ?l =
     (str ''COPY public.t (a, b, c) FROM stdin;'' @ [10],
      \<lparr>in_copy_block = True, expected_col_count = Some 3,
       current_table = Some (str ''public.t'')\<rparr>)"
    by (simp add: main_step_def schema_abc_def eval_header)
  have e: "main schema_abc ?t =
     str ''COPY other (x, y) FROM stdin;'' @ [10] @
     str ''COPY public.t (a, b, c) FROM stdin;'' @ [10] @
     [49, 9, 50, 9, 51, 10] @ [92, 46, 10]"
    by (simp add: eval_main eval_long_row schema_abc_def del: split.simps(2))
  have g: "main schema_abc ?t \<noteq> ?t"
    unfolding e by (simp add: str_def)
  show ?thesis by (intro conjI n a b f e g)
qed

end
